theory Spec2Isabelle
  imports Main "HOL-Library.Sublist"
begin

section \<open>Result: the accumulator of findings\<close>

text \<open>
  The validators of \<^verbatim>\<open>pkg/validator/task_validator.go\<close> and of the script linter build a
  \<^verbatim>\<open>validator.Result\<close> through \<^verbatim>\<open>Warn\<close>, \<^verbatim>\<open>Error\<close> and \<^verbatim>\<open>Append\<close>. The declaration of that
  type is not part of the sources at hand; it is taken from section 3 and 4.1 of the
  specification.
\<close>

datatype Severity = Warning | Error

type_synonym Finding = "Severity \<times> string"

text \<open>
  Modelled from the spec: the type \<^verbatim>\<open>validator.Result\<close> (its declaring file is missing).
  A Result is an ordered sequence of findings, each a severity and a message.
\<close>

datatype Result = Result (findings: "Finding list")

text \<open>
  Modelled from the spec: \<^verbatim>\<open>Result.Warn\<close> and \<^verbatim>\<open>Result.Error\<close> (missing) append one finding
  of the respective severity. The message is the already formatted text.
\<close>

definition Warn :: "Result \<Rightarrow> string \<Rightarrow> Result" where
  "Warn r msg = Result (findings r @ [(Warning, msg)])"

definition Err :: "Result \<Rightarrow> string \<Rightarrow> Result" where
  "Err r msg = Result (findings r @ [(Error, msg)])"

text \<open>
  Modelled from the spec: \<^verbatim>\<open>Result.Append\<close> (missing) merges in order, the findings of the
  merged-in Result after the existing ones.
\<close>

definition Append :: "Result \<Rightarrow> Result \<Rightarrow> Result" where
  "Append r other = Result (findings r @ findings other)"

text \<open>A Result with no Error finding is passing.\<close>

definition errorsOf :: "Result \<Rightarrow> string list" where
  "errorsOf r = map snd (filter (\<lambda>f. fst f = Error) (findings r))"

definition warningsOf :: "Result \<Rightarrow> string list" where
  "warningsOf r = map snd (filter (\<lambda>f. fst f = Warning) (findings r))"

section \<open>Strings of the Go standard library\<close>

text \<open>
  A Go string is a sequence of bytes, here a \<^typ>\<open>string\<close>. The functions below are the ones
  of package \<^verbatim>\<open>strings\<close> that the validators call, on byte strings; case folding is the
  one of the ASCII letters.
\<close>

fun Contains :: "string \<Rightarrow> string \<Rightarrow> bool" where
  "Contains [] substr = (substr = [])"
| "Contains (c # cs) substr = (prefix substr (c # cs) \<or> Contains cs substr)"

definition HasPrefix :: "string \<Rightarrow> string \<Rightarrow> bool" where
  "HasPrefix s p = prefix p s"

definition HasSuffix :: "string \<Rightarrow> string \<Rightarrow> bool" where
  "HasSuffix s x = suffix x s"

text \<open>
  \<^verbatim>\<open>strings.Split(s, sep)\<close> for a separator that is not empty (the callers pass \<^verbatim>\<open>"/"\<close> and
  \<^verbatim>\<open>"@sha256"\<close>): the pieces between the occurrences of \<^verbatim>\<open>sep\<close>, found from left to right
  without overlap. The counter skips the rest of a separator that has just been found.
\<close>

fun splitFrom :: "string \<Rightarrow> nat \<Rightarrow> string \<Rightarrow> string \<Rightarrow> string list" where
  "splitFrom sep k acc [] = [rev acc]"
| "splitFrom sep k acc (c # cs) =
     (if 0 < k then splitFrom sep (k - 1) acc cs
      else if prefix sep (c # cs) then rev acc # splitFrom sep (length sep - 1) [] cs
      else splitFrom sep 0 (c # acc) cs)"

definition Split :: "string \<Rightarrow> string \<Rightarrow> string list" where
  "Split s sep = splitFrom sep 0 [] s"

definition isUpper :: "char \<Rightarrow> bool" where
  "isUpper c = (65 \<le> (of_char c :: nat) \<and> (of_char c :: nat) \<le> 90)"

definition isLower :: "char \<Rightarrow> bool" where
  "isLower c = (97 \<le> (of_char c :: nat) \<and> (of_char c :: nat) \<le> 122)"

definition isDigit :: "char \<Rightarrow> bool" where
  "isDigit c = (48 \<le> (of_char c :: nat) \<and> (of_char c :: nat) \<le> 57)"

definition lowerChar :: "char \<Rightarrow> char" where
  "lowerChar c = (if isUpper c then char_of ((of_char c :: nat) + 32) else c)"

definition ToLower :: "string \<Rightarrow> string" where
  "ToLower s = map lowerChar s"

definition EqualFold :: "string \<Rightarrow> string \<Rightarrow> bool" where
  "EqualFold s t = (ToLower s = ToLower t)"

text \<open>
  \<^verbatim>\<open>strings.ReplaceAll(s, old, new)\<close>: every occurrence of \<^verbatim>\<open>old\<close>, from left to right without
  overlap, becomes \<^verbatim>\<open>new\<close>. For an empty \<^verbatim>\<open>old\<close> Go inserts \<^verbatim>\<open>new\<close> before every character
  and at the end.
\<close>

fun replaceFrom :: "string \<Rightarrow> string \<Rightarrow> nat \<Rightarrow> string \<Rightarrow> string" where
  "replaceFrom old new k [] = []"
| "replaceFrom old new k (c # cs) =
     (if 0 < k then replaceFrom old new (k - 1) cs
      else if prefix old (c # cs) then new @ replaceFrom old new (length old - 1) cs
      else c # replaceFrom old new 0 cs)"

definition ReplaceAll :: "string \<Rightarrow> string \<Rightarrow> string \<Rightarrow> string" where
  "ReplaceAll s old new =
     (if old = [] then concat (map (\<lambda>c. new @ [c]) s) @ new
      else replaceFrom old new 0 s)"

text \<open>
  The verbs of \<^verbatim>\<open>fmt.Sprintf\<close> the messages use: \<^verbatim>\<open>%q\<close> on a string (a double-quoted Go
  literal: the quote and the backslash are escaped, the control characters are written
  with their letter or as \<^verbatim>\<open>\x\<close> and two hexadecimal digits, and the other bytes are kept, a
  byte above 127 being taken as part of a printable character) and \<^verbatim>\<open>%s\<close> on a slice of
  strings (the elements between brackets, separated by one space).
\<close>

definition hexDigit :: "nat \<Rightarrow> char" where
  "hexDigit n = (if n < 10 then char_of (48 + n) else char_of (87 + n))"

definition quoteChar :: "char \<Rightarrow> string" where
  "quoteChar c =
     (if c = CHR 0x22 then [CHR 0x5C, CHR 0x22]
      else if c = CHR 0x5C then [CHR 0x5C, CHR 0x5C]
      else if c = CHR 0x07 then [CHR 0x5C, CHR ''a'']
      else if c = CHR 0x08 then [CHR 0x5C, CHR ''b'']
      else if c = CHR 0x0C then [CHR 0x5C, CHR ''f'']
      else if c = CHR 0x0A then [CHR 0x5C, CHR ''n'']
      else if c = CHR 0x0D then [CHR 0x5C, CHR ''r'']
      else if c = CHR 0x09 then [CHR 0x5C, CHR ''t'']
      else if c = CHR 0x0B then [CHR 0x5C, CHR ''v'']
      else if (of_char c :: nat) < 32 \<or> (of_char c :: nat) = 127 then
        [CHR 0x5C, CHR ''x'', hexDigit ((of_char c :: nat) div 16), hexDigit ((of_char c :: nat) mod 16)]
      else [c])"

definition quote :: "string \<Rightarrow> string" where
  "quote s = [CHR 0x22] @ concat (map quoteChar s) @ [CHR 0x22]"

fun joinWith :: "string \<Rightarrow> string list \<Rightarrow> string" where
  "joinWith sep [] = []"
| "joinWith sep [x] = x"
| "joinWith sep (x # y # ys) = x @ sep @ joinWith sep (y # ys)"

definition showSlice :: "string list \<Rightarrow> string" where
  "showSlice xs = ''['' @ joinWith '' '' xs @ '']''"

section \<open>Parameter expressions\<close>

text \<open>
  The regular expressions of Go read a string as UTF-8: one character is one code point.
  \<open>runeWidth\<close> is the number of bytes of the code point at the head of a string, as
  \<^verbatim>\<open>utf8.DecodeRuneInString\<close> gives it: a byte below 128 stands for itself; a lead byte
  \<^verbatim>\<open>C2\<close> to \<^verbatim>\<open>DF\<close> takes one continuation byte (\<^verbatim>\<open>80\<close> to \<^verbatim>\<open>BF\<close>), \<^verbatim>\<open>E0\<close> to \<^verbatim>\<open>EF\<close> take two and
  \<^verbatim>\<open>F0\<close> to \<^verbatim>\<open>F4\<close> take three, where the first continuation byte is at least \<^verbatim>\<open>A0\<close> after
  \<^verbatim>\<open>E0\<close>, at most \<^verbatim>\<open>9F\<close> after \<^verbatim>\<open>ED\<close>, at least \<^verbatim>\<open>90\<close> after \<^verbatim>\<open>F0\<close> and at most \<^verbatim>\<open>8F\<close> after \<^verbatim>\<open>F4\<close>;
  every other byte, and a lead byte whose continuation is missing or out of range, is an
  encoding error of width 1, which the expressions read as one character.
\<close>

definition byteIn :: "nat \<Rightarrow> nat \<Rightarrow> char \<Rightarrow> bool" where
  "byteIn lo hi c = (lo \<le> (of_char c :: nat) \<and> (of_char c :: nat) \<le> hi)"

definition secondOf3 :: "char \<Rightarrow> char \<Rightarrow> bool" where
  "secondOf3 b0 b1 =
     (if b0 = CHR 0xE0 then byteIn 160 191 b1
      else if b0 = CHR 0xED then byteIn 128 159 b1
      else byteIn 128 191 b1)"

definition secondOf4 :: "char \<Rightarrow> char \<Rightarrow> bool" where
  "secondOf4 b0 b1 =
     (if b0 = CHR 0xF0 then byteIn 144 191 b1
      else if b0 = CHR 0xF4 then byteIn 128 143 b1
      else byteIn 128 191 b1)"

definition runeWidth :: "string \<Rightarrow> nat" where
  "runeWidth s =
     (case s of
        [] \<Rightarrow> 0
      | b0 # t \<Rightarrow>
          (if byteIn 0 127 b0 then 1
           else if byteIn 194 223 b0 then
             (case t of
                b1 # u \<Rightarrow> (if byteIn 128 191 b1 then 2 else 1)
              | _ \<Rightarrow> 1)
           else if byteIn 224 239 b0 then
             (case t of
                b1 # b2 # u \<Rightarrow> (if secondOf3 b0 b1 \<and> byteIn 128 191 b2 then 3 else 1)
              | _ \<Rightarrow> 1)
           else if byteIn 240 244 b0 then
             (case t of
                b1 # b2 # b3 # u \<Rightarrow>
                  (if secondOf4 b0 b1 \<and> byteIn 128 191 b2 \<and> byteIn 128 191 b3 then 4 else 1)
              | _ \<Rightarrow> 1)
           else 1))"

text \<open>
  \<^verbatim>\<open>extractExpressionFromString(s, prefix)\<close> compiles
  \<^verbatim>\<open>(\$(\(PREFIX.(?P<var>[_a-zA-Z][_a-zA-Z0-9.-]*(\[\*\])?)\)))\<close> and returns the leftmost
  match. The callers pass the prefixes \<^verbatim>\<open>""\<close> and \<^verbatim>\<open>"params"\<close>, which stand for themselves.
  At one position the pattern reads: a dollar, an opening parenthesis, the prefix, any one
  character but a newline (the dot of the pattern is not escaped; it takes one code
  point, of \<^const>\<open>runeWidth\<close> bytes), a letter or underscore, the longest run of letters,
  digits, underscores, dots and dashes (the character after the run must be a bracket or
  a parenthesis, which are not in the class, so no shorter run can match), an optional
  \<^verbatim>\<open>[*]\<close>, and a closing parenthesis. All the other characters of the pattern are ASCII, and
  a dollar is never a byte inside a longer code point, so a match can start at every byte
  that is a dollar.
\<close>

definition isVarStart :: "char \<Rightarrow> bool" where
  "isVarStart c = (c = CHR ''_'' \<or> isLower c \<or> isUpper c)"

definition isVarChar :: "char \<Rightarrow> bool" where
  "isVarChar c = (isVarStart c \<or> isDigit c \<or> c = CHR ''.'' \<or> c = CHR ''-'')"

definition matchVarTail :: "string \<Rightarrow> string option" where
  "matchVarTail s =
     (case s of
        [] \<Rightarrow> None
      | a # t \<Rightarrow>
          (if a = CHR 0x0A then None
           else
             (case drop (runeWidth s) s of
                v # rest \<Rightarrow>
                  (if isVarStart v then
                     (let any = take (runeWidth s) s;
                          run = takeWhile isVarChar rest;
                          after = dropWhile isVarChar rest
                      in
                      if prefix ''[*])'' after then Some (any @ v # run @ ''[*])'')
                      else if prefix '')'' after then Some (any @ v # run @ '')'')
                      else None)
                   else None)
              | _ \<Rightarrow> None)))"

definition matchExprHere :: "string \<Rightarrow> string \<Rightarrow> string option" where
  "matchExprHere pfx s =
     (if prefix (''$('' @ pfx) s then
        (case matchVarTail (drop (2 + length pfx) s) of
           None \<Rightarrow> None
         | Some m \<Rightarrow> Some (''$('' @ pfx @ m))
      else None)"

fun findExpr :: "string \<Rightarrow> string \<Rightarrow> string option" where
  "findExpr pfx [] = None"
| "findExpr pfx (c # cs) =
     (case matchExprHere pfx (c # cs) of
        Some m \<Rightarrow> Some m
      | None \<Rightarrow> findExpr pfx cs)"

definition extractExpressionFromString :: "string \<Rightarrow> string \<Rightarrow> string \<times> bool" where
  "extractExpressionFromString s pfx =
     (case findExpr pfx s of None \<Rightarrow> ('''', False) | Some m \<Rightarrow> (m, True))"

section \<open>The task validator\<close>

subsection \<open>Resources, tasks and steps\<close>

text \<open>
  The fields of a step that \<^verbatim>\<open>validateStep\<close> reads. \<^verbatim>\<open>v1.Step\<close> and \<^verbatim>\<open>v1beta1.Step\<close> have
  the same fields; the dynamic type of the value handed to \<^verbatim>\<open>validateStep\<close> tells them
  apart. A pointer that may be nil is an option.
\<close>

record EnvVarSource =
  SecretKeyRef :: "string option"

record EnvVar =
  VarName :: string
  ValueFrom :: "EnvVarSource option"

record EnvFromSource =
  SecretRef :: "string option"

record Step =
  Name :: string
  Image :: string
  Script :: string
  Env :: "EnvVar list"
  EnvFrom :: "EnvFromSource list"

datatype AnyStep = V1Step Step | V1beta1Step Step | OtherStep

record Task =
  ObjectMetaName :: string
  SpecSteps :: "Step list"

text \<open>
  What \<^verbatim>\<open>Resource.ToType\<close> hands back in an empty interface: a pointer to a \<^verbatim>\<open>v1.Task\<close>, to a
  \<^verbatim>\<open>v1beta1.Task\<close> or to a \<^verbatim>\<open>v1beta1.ClusterTask\<close>, or a value of another dynamic type (the nil
  interface among them). The parser is not part of the sources at hand, so the outcome
  of \<^verbatim>\<open>ToType\<close> is a field of the resource: the error text, or the decoded value.
\<close>

datatype Decoded =
    V1TaskPtr "Task option"
  | V1beta1TaskPtr "Task option"
  | V1beta1ClusterTaskPtr "Task option"
  | OtherType

record Resource =
  Kind :: string
  ToType :: "string + Decoded"

text \<open>The run-time panics of Go that the code can raise.\<close>

datatype Panic =
    SliceBounds nat nat
  | InterfaceConversion
  | NilDereference

subsection \<open>The image reference collaborator\<close>

text \<open>
  \<^verbatim>\<open>name.NewDigest\<close> and \<^verbatim>\<open>name.NewTag\<close> belong to an external library. Each is a parameter of
  the model: given the image string it returns the text of the parse error, or what the
  validator reads from the parsed reference, \<^verbatim>\<open>rep.String()\<close> for a digest and
  \<^verbatim>\<open>ref.Identifier()\<close> for a tag.
\<close>

record NameLib =
  NewDigest :: "string \<Rightarrow> string + string"
  NewTag :: "string \<Rightarrow> string + string"

subsection \<open>The messages\<close>

definition msgVariables :: "string \<Rightarrow> string \<Rightarrow> string" where
  "msgVariables stepName img =
     ''Step '' @ quote stepName @ '' uses image '' @ quote img
       @ '' that contains variables; skipping validation''"

definition msgRegistry :: "string \<Rightarrow> string \<Rightarrow> string" where
  "msgRegistry stepName img =
     ''Step '' @ quote stepName @ '' uses image '' @ quote img
       @ ''; consider using a fully qualified name - e.g. docker.io/library/ubuntu:1.0''"

definition msgInvalidDigest :: "string \<Rightarrow> string \<Rightarrow> string \<Rightarrow> string" where
  "msgInvalidDigest stepName img err =
     ''Step '' @ quote stepName @ '' uses image '' @ quote img
       @ '' with an invalid digest. Error: '' @ err"

definition msgTagWithDigest :: "string \<Rightarrow> string \<Rightarrow> string" where
  "msgTagWithDigest stepName img =
     ''Step '' @ quote stepName @ '' uses image '' @ quote img
       @ ''; consider using an image tagged with specific version along with digest eg. abc.io/img:v1@sha256:abcde''"

definition msgInvalidTag :: "string \<Rightarrow> string \<Rightarrow> string \<Rightarrow> string" where
  "msgInvalidTag stepName img err =
     ''Step '' @ quote stepName @ '' uses image '' @ quote img
       @ '' with an invalid tag. Error: '' @ err"

definition msgLatest :: "string \<Rightarrow> string \<Rightarrow> string" where
  "msgLatest stepName img =
     ''Step '' @ quote stepName @ '' uses image '' @ quote img
       @ '' which must be tagged with a specific version''"

definition msgSecretEnv :: "string \<Rightarrow> string \<Rightarrow> string" where
  "msgSecretEnv stepName envName =
     ''Step '' @ quote stepName @ '' uses secret to populate env '' @ quote envName
       @ ''. Prefer using secrets as files over secrets as environment variables''"

definition msgSecretEnvFrom :: "string \<Rightarrow> string" where
  "msgSecretEnvFrom stepName =
     ''Step '' @ quote stepName
       @ '' uses secret as environment variables. Prefer using secrets as files over secrets as environment variables''"

definition msgScriptParam :: "string \<Rightarrow> string \<Rightarrow> string" where
  "msgScriptParam stepName expr =
     ''Step '' @ quote stepName @ '' references '' @ quote expr
       @ '' directly from its script block. For reliability and security, consider putting the param into an environment variable of the Step and accessing that environment variable in your script instead.''"

subsection \<open>The rules of a step\<close>

definition isValidRegistry :: "string \<Rightarrow> bool" where
  "isValidRegistry img = Contains (hd (Split img ''/'')) ''.''"

definition tagWithDigest :: "string \<Rightarrow> bool" where
  "tagWithDigest img =
     (let withOutDigest = hd (Split img ''@sha256'') in
      if Contains withOutDigest '':'' \<and> \<not> HasSuffix withOutDigest '':latest'' then True
      else False)"

text \<open>
  The body of the loop over \<^verbatim>\<open>env\<close>: the switch on the version has the same test in both
  of its cases and no default.
\<close>

definition envRule :: "string \<Rightarrow> string \<Rightarrow> EnvVar \<Rightarrow> Result \<Rightarrow> Result" where
  "envRule version stepName e result =
     (let secret = (case ValueFrom e of None \<Rightarrow> False | Some src \<Rightarrow> SecretKeyRef src \<noteq> None) in
      if version = ''v1'' then (if secret then Warn result (msgSecretEnv stepName (VarName e)) else result)
      else if version = ''v1beta1'' then (if secret then Warn result (msgSecretEnv stepName (VarName e)) else result)
      else result)"

definition envFromRule :: "string \<Rightarrow> string \<Rightarrow> EnvFromSource \<Rightarrow> Result \<Rightarrow> Result" where
  "envFromRule version stepName e result =
     (if version = ''v1'' then (if SecretRef e \<noteq> None then Warn result (msgSecretEnvFrom stepName) else result)
      else if version = ''v1beta1'' then (if SecretRef e \<noteq> None then Warn result (msgSecretEnvFrom stepName) else result)
      else result)"

definition scriptRule :: "string \<Rightarrow> string \<Rightarrow> Result \<Rightarrow> Result" where
  "scriptRule stepName script result =
     (if script \<noteq> '''' then
        (let expr = fst (extractExpressionFromString script ''params'') in
         if expr \<noteq> '''' then Warn result (msgScriptParam stepName expr) else result)
      else result)"

text \<open>
  \<^verbatim>\<open>validateStep\<close> after its type switch has read the fields. Every \<^verbatim>\<open>return result\<close> of the
  source ends a branch here.
\<close>

definition validateFields :: "NameLib \<Rightarrow> string \<Rightarrow> Step \<Rightarrow> Result" where
  "validateFields lib version s =
     (let stepName = Name s; img = Image s; result = Result [] in
      if snd (extractExpressionFromString img '''') then
        Warn result (msgVariables stepName img)
      else
        (let result =
               (if \<not> Contains img ''/'' \<or> \<not> isValidRegistry img
                then Warn result (msgRegistry stepName img) else result)
         in
         if Contains img ''@sha256'' then
           (case NewDigest lib img of
              Inl err \<Rightarrow> Err result (msgInvalidDigest stepName img err)
            | Inr rep \<Rightarrow>
                (if \<not> tagWithDigest rep then Warn result (msgTagWithDigest stepName img)
                 else result))
         else
           (case NewTag lib img of
              Inl err \<Rightarrow> Err result (msgInvalidTag stepName img err)
            | Inr ident \<Rightarrow>
                (let result =
                       (if EqualFold ident ''latest''
                        then Err result (msgLatest stepName img) else result);
                     result = fold (envRule version stepName) (Env s) result;
                     result = fold (envFromRule version stepName) (EnvFrom s) result
                 in scriptRule stepName (Script s) result))))"

definition validateStep :: "NameLib \<Rightarrow> AnyStep \<Rightarrow> Result" where
  "validateStep lib step =
     (case step of
        V1Step s \<Rightarrow> validateFields lib ''v1'' s
      | V1beta1Step s \<Rightarrow> validateFields lib ''v1beta1'' s
      | OtherStep \<Rightarrow> Result [])"

text \<open>What the registry rule adds to an empty Result, as a list of findings.\<close>

definition registryFindings :: "string \<Rightarrow> string \<Rightarrow> Finding list" where
  "registryFindings stepName img =
     (if \<not> Contains img ''/'' \<or> \<not> isValidRegistry img
      then [(Warning, msgRegistry stepName img)] else [])"

text \<open>
  \<^verbatim>\<open>taskValidator.Validate\<close>: a decoding failure is one Error; the type switch on the decoded
  value walks the steps of a \<^verbatim>\<open>v1.Task\<close> or of a \<^verbatim>\<open>v1beta1.Task\<close> and has no other case.
  Reading \<^verbatim>\<open>task.Spec.Steps\<close> through a nil pointer panics.
\<close>

definition msgDecode :: "string \<Rightarrow> string" where
  "msgDecode err = ''Failed to decode to a Task - '' @ err"

definition validateSteps :: "NameLib \<Rightarrow> (Step \<Rightarrow> AnyStep) \<Rightarrow> Step list \<Rightarrow> Result \<Rightarrow> Result" where
  "validateSteps lib wrap steps result =
     fold (\<lambda>step r. Append r (validateStep lib (wrap step))) steps result"

definition taskValidator_Validate :: "NameLib \<Rightarrow> Resource \<Rightarrow> Panic + Result" where
  "taskValidator_Validate lib res =
     (case ToType res of
        Inl err \<Rightarrow> Inr (Err (Result []) (msgDecode err))
      | Inr d \<Rightarrow>
          (case d of
             V1TaskPtr None \<Rightarrow> Inl NilDereference
           | V1TaskPtr (Some task) \<Rightarrow> Inr (validateSteps lib V1Step (SpecSteps task) (Result []))
           | V1beta1TaskPtr None \<Rightarrow> Inl NilDereference
           | V1beta1TaskPtr (Some task) \<Rightarrow> Inr (validateSteps lib V1beta1Step (SpecSteps task) (Result []))
           | V1beta1ClusterTaskPtr p \<Rightarrow> Inr (Result [])
           | OtherType \<Rightarrow> Inr (Result [])))"

subsection \<open>A reference collaborator\<close>

text \<open>
  To run the validator on concrete images, the two parsers are given a reference
  behaviour after the lenient (weak validation) mode of the library the source imports:
  a tag is what follows the last colon when it has no slash, and defaults to
  \<^verbatim>\<open>latest\<close>; the first path segment is a registry when it has a dot or a colon; a tag has 1
  to 128 characters of letters, digits, underscore, dash and dot; a repository has 2 to
  255 characters of lower-case letters, digits, underscore, dash, dot and slash; a
  registry is made of the characters of a URI host, with digits after its last colon; a
  digest is \<^verbatim>\<open>sha256:\<close> and 64 lower-case hexadecimal digits after exactly one \<^verbatim>\<open>@\<close>; the
  parsed digest prints as the string it was parsed from. The error texts are shortened.
  The theorems on \<^const>\<open>validateStep\<close> hold for every collaborator; this one serves the
  concrete runs.
\<close>

definition checkElement :: "(char \<Rightarrow> bool) \<Rightarrow> nat \<Rightarrow> nat \<Rightarrow> string \<Rightarrow> bool" where
  "checkElement allowed minLen maxLen s =
     (minLen \<le> length s \<and> length s \<le> maxLen \<and> list_all allowed s)"

definition tagChar :: "char \<Rightarrow> bool" where
  "tagChar c = (isLower c \<or> isUpper c \<or> isDigit c \<or> c \<in> set ''_-.'')"

definition repositoryChar :: "char \<Rightarrow> bool" where
  "repositoryChar c = (isLower c \<or> isDigit c \<or> c \<in> set ''_-./'')"

definition hostChar :: "char \<Rightarrow> bool" where
  "hostChar c = (isLower c \<or> isUpper c \<or> isDigit c \<or> c \<in> set ''-_.~!$&()*+,;=:<>'')"

definition hexChar :: "char \<Rightarrow> bool" where
  "hexChar c = (isDigit c \<or> c \<in> set ''abcdef'')"

definition checkRegistry :: "string \<Rightarrow> bool" where
  "checkRegistry name =
     (list_all hostChar name
      \<and> (if CHR '':'' \<in> set name then list_all isDigit (last (Split name '':'')) else True))"

definition refNewRepository :: "string \<Rightarrow> string + unit" where
  "refNewRepository name =
     (if name = '''' then Inl ''a repository name must be specified''
      else
        (let first = takeWhile (\<lambda>c. c \<noteq> CHR ''/'') name;
             rest = dropWhile (\<lambda>c. c \<noteq> CHR ''/'') name;
             isReg = (rest \<noteq> [] \<and> (CHR ''.'' \<in> set first \<or> CHR '':'' \<in> set first));
             registry = (if isReg then first else '''');
             repo = (if isReg then tl rest else name)
         in
         if \<not> checkElement repositoryChar 2 255 repo then Inl (''invalid repository: '' @ repo)
         else if \<not> checkRegistry registry then Inl (''invalid registry: '' @ registry)
         else Inr ()))"

definition refNewTag :: "string \<Rightarrow> string + string" where
  "refNewTag name =
     (let parts = Split name '':'';
          split = (1 < length parts \<and> \<not> Contains (last parts) ''/'');
          base = (if split then joinWith '':'' (butlast parts) else name);
          tag = (if split then last parts else '''')
      in
      if tag \<noteq> '''' \<and> \<not> checkElement tagChar 1 128 tag then Inl (''invalid tag: '' @ tag)
      else
        (case refNewRepository base of
           Inl err \<Rightarrow> Inl err
         | Inr u \<Rightarrow> Inr (if tag = '''' then ''latest'' else tag)))"

definition refNewDigest :: "string \<Rightarrow> string + string" where
  "refNewDigest name =
     (case Split name ''@'' of
        [base, dig] \<Rightarrow>
          (if \<not> prefix ''sha256:'' dig then Inl (''unsupported digest algorithm: '' @ dig)
           else if \<not> checkElement hexChar 64 64 (drop 7 dig) then Inl (''invalid checksum digest length or format: '' @ dig)
           else
             (case refNewTag base of
                Inr t \<Rightarrow> Inr name
              | Inl e \<Rightarrow>
                  (case refNewRepository base of
                     Inl err \<Rightarrow> Inl err
                   | Inr u \<Rightarrow> Inr name)))
      | _ \<Rightarrow> Inl (''a digest must contain exactly one @ separator: '' @ name))"

definition refLib :: NameLib where
  "refLib = \<lparr> NewDigest = refNewDigest, NewTag = refNewTag \<rparr>"

section \<open>Regular expressions\<close>

text \<open>
  \<^verbatim>\<open>regexp.MatchString(pattern, s)\<close> compiles the pattern and reports whether some substring
  of \<^verbatim>\<open>s\<close> matches it, or the compile error. The linter is verified for every such
  function (a parameter of type \<open>Matcher\<close>, \<^const>\<open>None\<close> being the compile error). For the
  concrete runs, and for the default table, \<open>MatchString\<close> below implements the part of the
  syntax the tables of the linter are written in: literals, \<^verbatim>\<open>.\<close> (any character but a
  newline), groups, alternation, the postfix operators \<^verbatim>\<open>*\<close>, \<^verbatim>\<open>+\<close>, \<^verbatim>\<open>?\<close> and their lazy
  forms, the anchors \<^verbatim>\<open>^\<close> and \<^verbatim>\<open>$\<close> (begin and end of the text), the classes \<^verbatim>\<open>\s \d \w\<close> and
  their complements, the escapes \<^verbatim>\<open>\n \t \r \f \v\<close> and an escaped ASCII character that is
  neither a letter nor a digit. It answers \<^const>\<open>None\<close> on what the library rejects in
  this part (an unbalanced parenthesis, an operator with nothing to repeat, two operators
  in a row, a backslash at the end) and also on syntax outside this part (bracket
  classes, counted repetition, \<^verbatim>\<open>(?\<close> groups, other escapes), which the concrete runs do
  not use. A character is a byte.
\<close>

type_synonym Matcher = "string \<Rightarrow> string \<Rightarrow> bool option"

datatype cclass = AnyNotNL | Space | Digit | Word

datatype rexp =
    Void
  | Eps
  | Bol
  | Eol
  | Lit char
  | Cls bool cclass
  | Cat rexp rexp
  | Alt rexp rexp
  | Star rexp

definition isSpace :: "char \<Rightarrow> bool" where
  "isSpace c = (c = CHR 0x09 \<or> c = CHR 0x0A \<or> c = CHR 0x0C \<or> c = CHR 0x0D \<or> c = CHR '' '')"

definition isWord :: "char \<Rightarrow> bool" where
  "isWord c = (isLower c \<or> isUpper c \<or> isDigit c \<or> c = CHR ''_'')"

fun inClass :: "cclass \<Rightarrow> char \<Rightarrow> bool" where
  "inClass AnyNotNL c = (c \<noteq> CHR 0x0A)"
| "inClass Space c = isSpace c"
| "inClass Digit c = isDigit c"
| "inClass Word c = isWord c"

subsection \<open>Parsing\<close>

text \<open>
  The parser reads the pattern from left to right. It keeps the alternatives of the open
  group that are complete, the atoms of the alternative being read (both newest first),
  a stack of the same for the enclosing groups, and whether the last thing read was a
  repetition operator.
\<close>

definition seqOf :: "rexp list \<Rightarrow> rexp" where
  "seqOf atoms = fold (\<lambda>a acc. Cat a acc) atoms Eps"

definition closeGroup :: "rexp list \<Rightarrow> rexp list \<Rightarrow> rexp" where
  "closeGroup alts cur = fold (\<lambda>a acc. Alt a acc) alts (seqOf cur)"

definition isPunct :: "char \<Rightarrow> bool" where
  "isPunct c = ((of_char c :: nat) < 128 \<and> \<not> isLower c \<and> \<not> isUpper c \<and> \<not> isDigit c)"

definition escapeAtom :: "char \<Rightarrow> rexp option" where
  "escapeAtom e =
     (if e = CHR ''n'' then Some (Lit (CHR 0x0A))
      else if e = CHR ''t'' then Some (Lit (CHR 0x09))
      else if e = CHR ''r'' then Some (Lit (CHR 0x0D))
      else if e = CHR ''f'' then Some (Lit (CHR 0x0C))
      else if e = CHR ''v'' then Some (Lit (CHR 0x0B))
      else if e = CHR ''s'' then Some (Cls True Space)
      else if e = CHR ''S'' then Some (Cls False Space)
      else if e = CHR ''d'' then Some (Cls True Digit)
      else if e = CHR ''D'' then Some (Cls False Digit)
      else if e = CHR ''w'' then Some (Cls True Word)
      else if e = CHR ''W'' then Some (Cls False Word)
      else if isPunct e then Some (Lit e)
      else None)"

definition repeatAtom :: "char \<Rightarrow> rexp \<Rightarrow> rexp" where
  "repeatAtom op a =
     (if op = CHR ''*'' then Star a
      else if op = CHR ''+'' then Cat a (Star a)
      else Alt a Eps)"

fun parseRx :: "(rexp list \<times> rexp list) list \<Rightarrow> rexp list \<Rightarrow> rexp list \<Rightarrow> bool \<Rightarrow> string \<Rightarrow> rexp option" where
  "parseRx stack alts cur rep [] = (if stack = [] then Some (closeGroup alts cur) else None)"
| "parseRx stack alts cur rep (c # cs) =
     (if c = CHR ''('' then parseRx ((alts, cur) # stack) [] [] False cs
      else if c = CHR '')'' then
        (case stack of
           [] \<Rightarrow> None
         | (alts', cur') # stack' \<Rightarrow> parseRx stack' alts' (closeGroup alts cur # cur') False cs)
      else if c = CHR ''|'' then parseRx stack (seqOf cur # alts) [] False cs
      else if c = CHR ''*'' \<or> c = CHR ''+'' \<or> c = CHR ''?'' then
        (case cur of
           [] \<Rightarrow> None
         | a # cur' \<Rightarrow>
             (if rep then None
              else
                (case cs of
                   [] \<Rightarrow> parseRx stack alts (repeatAtom c a # cur') True []
                 | d # ds \<Rightarrow>
                     (if d = CHR ''?'' then parseRx stack alts (repeatAtom c a # cur') True ds
                      else parseRx stack alts (repeatAtom c a # cur') True (d # ds)))))
      else if c = CHR ''.'' then parseRx stack alts (Cls True AnyNotNL # cur) False cs
      else if c = CHR ''^'' then parseRx stack alts (Bol # cur) False cs
      else if c = CHR ''$'' then parseRx stack alts (Eol # cur) False cs
      else if c = CHR 0x5C then
        (case cs of
           [] \<Rightarrow> None
         | e # es \<Rightarrow>
             (case escapeAtom e of
                None \<Rightarrow> None
              | Some a \<Rightarrow> parseRx stack alts (a # cur) False es))
      else if c = CHR ''['' \<or> c = CHR ''{'' then None
      else parseRx stack alts (Lit c # cur) False cs)"

definition compileRx :: "string \<Rightarrow> rexp option" where
  "compileRx pattern = parseRx [] [] [] False pattern"

subsection \<open>Matching\<close>

text \<open>
  Matching is by derivatives. The two flags say whether the position is the begin of the
  text and whether it is its end; they decide the anchors.
\<close>

fun nullable :: "bool \<Rightarrow> bool \<Rightarrow> rexp \<Rightarrow> bool" where
  "nullable b e Void = False"
| "nullable b e Eps = True"
| "nullable b e Bol = b"
| "nullable b e Eol = e"
| "nullable b e (Lit c) = False"
| "nullable b e (Cls pos k) = False"
| "nullable b e (Cat r s) = (nullable b e r \<and> nullable b e s)"
| "nullable b e (Alt r s) = (nullable b e r \<or> nullable b e s)"
| "nullable b e (Star r) = True"

fun deriv :: "bool \<Rightarrow> char \<Rightarrow> rexp \<Rightarrow> rexp" where
  "deriv b c Void = Void"
| "deriv b c Eps = Void"
| "deriv b c Bol = Void"
| "deriv b c Eol = Void"
| "deriv b c (Lit d) = (if c = d then Eps else Void)"
| "deriv b c (Cls pos k) = (if inClass k c = pos then Eps else Void)"
| "deriv b c (Cat r s) =
     (if nullable b False r then Alt (Cat (deriv b c r) s) (deriv b c s)
      else Cat (deriv b c r) s)"
| "deriv b c (Alt r s) = Alt (deriv b c r) (deriv b c s)"
| "deriv b c (Star r) = Cat (deriv b c r) (Star r)"

text \<open>Does a prefix of the text match, read from a position with the given begin flag?\<close>

fun matchPrefix :: "bool \<Rightarrow> rexp \<Rightarrow> string \<Rightarrow> bool" where
  "matchPrefix b r [] = nullable b True r"
| "matchPrefix b r (c # cs) = (nullable b False r \<or> matchPrefix False (deriv b c r) cs)"

text \<open>Does a substring of the text match?\<close>

fun searchRx :: "bool \<Rightarrow> rexp \<Rightarrow> string \<Rightarrow> bool" where
  "searchRx b r [] = nullable b True r"
| "searchRx b r (c # cs) = (matchPrefix b r (c # cs) \<or> searchRx False r cs)"

definition MatchString :: Matcher where
  "MatchString pattern s =
     (case compileRx pattern of
        None \<Rightarrow> None
      | Some r \<Rightarrow> Some (searchRx True r s))"

section \<open>The script linter\<close>

subsection \<open>Configuration\<close>

record linter =
  cmd :: string
  args :: "string list"

record config =
  regexp :: string
  linters :: "linter list"

definition backslash :: string where
  "backslash = [CHR 0x5C]"

definition NewConfig :: "config list" where
  "NewConfig =
     [ \<lparr> regexp = ''(/usr/bin/env |.*/bin/)sh'',
         linters = [ \<lparr> cmd = ''shellcheck'', args = [''-s'', ''sh''] \<rparr>,
                     \<lparr> cmd = ''sh'', args = [''-n''] \<rparr> ] \<rparr>,
       \<lparr> regexp = ''(/usr/bin/env |.*/bin/)bash'',
         linters = [ \<lparr> cmd = ''shellcheck'', args = [''-s'', ''bash''] \<rparr>,
                     \<lparr> cmd = ''bash'', args = [''-n''] \<rparr> ] \<rparr>,
       \<lparr> regexp = ''(/usr/bin/env'' @ backslash @ ''s|.*/bin/|/usr/libexec/platform-)python(23)?'',
         linters = [ \<lparr> cmd = ''pylint'', args = [''-dC0103''] \<rparr> ] \<rparr> ]"

record taskLinter =
  res :: Resource
  configs :: "config list"

definition NewScriptLinter :: "Resource \<Rightarrow> taskLinter" where
  "NewScriptLinter r = \<lparr> res = r, configs = NewConfig \<rparr>"

subsection \<open>The operating system\<close>

text \<open>
  What the linter does to the world is recorded as a trace of events, oldest first. What
  the world answers is a parameter: each answer may depend on everything that happened
  before (the trace so far). \<^verbatim>\<open>exec.LookPath\<close> gives the path of a command or fails;
  \<^verbatim>\<open>os.CreateTemp\<close> gives the name of a fresh file or fails; writing and closing succeed or
  fail; running a command gives its combined output and whether it exited with status 0.
  The command reads the temporary file, so its answer depends on the text written there,
  which the event of the run records as the text handed to the linter.
\<close>

datatype Event =
    LookPathCall string
  | CreateTempCall "string option"
  | WriteCall string string
  | CloseCall string
  | ExecCall string "string list" string
  | RemoveCall string

record World =
  LookPath :: "Event list \<Rightarrow> string \<Rightarrow> string option"
  CreateTemp :: "Event list \<Rightarrow> string option"
  WriteFile :: "Event list \<Rightarrow> string \<Rightarrow> string \<Rightarrow> bool"
  CloseFile :: "Event list \<Rightarrow> string \<Rightarrow> bool"
  CombinedOutput :: "Event list \<Rightarrow> string \<Rightarrow> string list \<Rightarrow> string \<Rightarrow> string \<times> bool"

text \<open>
  The state of one call of \<^verbatim>\<open>validateScript\<close>: the Result built so far, the trace, and the
  names whose removal has been deferred, newest first.
\<close>

record LintState =
  result :: Result
  trace :: "Event list"
  deferred :: "string list"

text \<open>A loop body either goes on with the next element or returns from the function.\<close>

datatype 'a Flow = Continue 'a | Return 'a

definition logEvent :: "LintState \<Rightarrow> Event \<Rightarrow> LintState" where
  "logEvent s e = s\<lparr> trace := trace s @ [e] \<rparr>"

definition addError :: "LintState \<Rightarrow> string \<Rightarrow> LintState" where
  "addError s msg = s\<lparr> result := Err (result s) msg \<rparr>"

subsection \<open>The messages\<close>

definition msgNoEnv :: "string \<Rightarrow> string" where
  "msgNoEnv taskName = ''step: '' @ taskName @ '' is not using #!/usr/bin/env ''"

definition msgInvalidRegexp :: "string \<Rightarrow> string" where
  "msgInvalidRegexp pat = ''Invalid regexp: '' @ pat"

definition msgNotFound :: "string \<Rightarrow> string" where
  "msgNotFound c = ''Couldn't find the linter '' @ c @ '' in the path''"

definition msgFailed :: "string \<Rightarrow> string list \<Rightarrow> string \<Rightarrow> string" where
  "msgFailed execpath as outt = execpath @ '', '' @ showSlice as @ '' failed:\<newline>'' @ outt"

subsection \<open>One script\<close>

text \<open>
  The body of the loop over the linters of a matching rule. Each of the four failures
  before the run of the command adds one Error and returns from \<^verbatim>\<open>validateScript\<close>; a
  command that fails adds one Error and the loop goes on.
\<close>

definition runLinter :: "World \<Rightarrow> string \<Rightarrow> string \<Rightarrow> string \<Rightarrow> linter \<Rightarrow> LintState \<Rightarrow> LintState Flow" where
  "runLinter w taskName stepName script l s =
     (case LookPath w (trace s) (cmd l) of
        None \<Rightarrow> Return (addError (logEvent s (LookPathCall (cmd l))) (msgNotFound (cmd l)))
      | Some execpath \<Rightarrow>
          (let s1 = logEvent s (LookPathCall (cmd l)) in
           case CreateTemp w (trace s1) of
             None \<Rightarrow> Return (addError (logEvent s1 (CreateTempCall None)) ''Cannot create temporary files'')
           | Some tmp \<Rightarrow>
               (let s2 = (logEvent s1 (CreateTempCall (Some tmp)))\<lparr> deferred := tmp # deferred s1 \<rparr> in
                if \<not> WriteFile w (trace s2) tmp script then
                  Return (addError (logEvent s2 (WriteCall tmp script)) ''Cannot write to temporary files'')
                else
                  (let s3 = logEvent s2 (WriteCall tmp script) in
                   if \<not> CloseFile w (trace s3) tmp then
                     Return (addError (logEvent s3 (CloseCall tmp)) ''Cannot close temporary files'')
                   else
                     (let s4 = logEvent s3 (CloseCall tmp);
                          argv = args l @ [tmp];
                          out = CombinedOutput w (trace s4) execpath argv script;
                          s5 = logEvent s4 (ExecCall execpath argv script)
                      in
                      if \<not> snd out then
                        Continue (addError s5
                          (msgFailed execpath (args l)
                             (ReplaceAll (fst out) tmp (taskName @ ''-'' @ stepName))))
                      else Continue s5)))))"

fun runLinters :: "World \<Rightarrow> string \<Rightarrow> string \<Rightarrow> string \<Rightarrow> linter list \<Rightarrow> LintState \<Rightarrow> LintState Flow" where
  "runLinters w taskName stepName script [] s = Continue s"
| "runLinters w taskName stepName script (l # ls) s =
     (case runLinter w taskName stepName script l s of
        Return s' \<Rightarrow> Return s'
      | Continue s' \<Rightarrow> runLinters w taskName stepName script ls s')"

text \<open>The pattern handed to \<^verbatim>\<open>regexp.MatchString\<close> for a rule.\<close>

definition rulePattern :: "config \<Rightarrow> string" where
  "rulePattern c = ''^#!'' @ regexp c @ backslash @ ''n''"

fun runConfigs :: "Matcher \<Rightarrow> World \<Rightarrow> string \<Rightarrow> string \<Rightarrow> string \<Rightarrow> config list \<Rightarrow> LintState \<Rightarrow> LintState Flow" where
  "runConfigs rx w taskName stepName script [] s = Continue s"
| "runConfigs rx w taskName stepName script (c # cs) s =
     (case rx (rulePattern c) script of
        None \<Rightarrow> Return (addError s (msgInvalidRegexp (regexp c)))
      | Some matched \<Rightarrow>
          (if \<not> matched then runConfigs rx w taskName stepName script cs s
           else
             (case runLinters w taskName stepName script (linters c) s of
                Return s' \<Rightarrow> Return s'
              | Continue s' \<Rightarrow> runConfigs rx w taskName stepName script cs s')))"

text \<open>
  The head of \<^verbatim>\<open>validateScript\<close>: \<^verbatim>\<open>script[0:2]\<close> and \<^verbatim>\<open>script[0:14]\<close> panic on a script that is
  shorter. The outcome is the script the rules are matched against and that is written
  to the temporary files, with the Result so far.
\<close>

definition shebangLine :: string where
  "shebangLine = ''#!/usr/bin/env sh\<newline>''"

definition normalize :: "string \<Rightarrow> string \<Rightarrow> Panic + (string \<times> Result)" where
  "normalize taskName script =
     (if length script < 2 then Inl (SliceBounds 2 (length script))
      else if take 2 script \<noteq> ''#!'' then Inr (shebangLine @ script, Result [])
      else if length script < 14 then Inl (SliceBounds 14 (length script))
      else if take 14 script \<noteq> ''#!/usr/bin/env'' then
        Inr (script, Warn (Result []) (msgNoEnv taskName))
      else Inr (script, Result []))"

text \<open>
  On return the deferred removals run, the last deferred first; the state that leaves
  the loops is the same whether a loop body returned or the loops ran to their end.
\<close>

definition flowState :: "'a Flow \<Rightarrow> 'a" where
  "flowState f = (case f of Continue s \<Rightarrow> s | Return s \<Rightarrow> s)"

definition runDeferred :: "LintState \<Rightarrow> Result \<times> Event list" where
  "runDeferred s = (result s, trace s @ map RemoveCall (deferred s))"

definition validateScript ::
  "Matcher \<Rightarrow> World \<Rightarrow> string \<Rightarrow> string \<Rightarrow> config list \<Rightarrow> string \<Rightarrow> Event list \<Rightarrow> Panic + (Result \<times> Event list)" where
  "validateScript rx w taskName script cfgs stepName tr =
     (case normalize taskName script of
        Inl p \<Rightarrow> Inl p
      | Inr (script', r0) \<Rightarrow>
          Inr (runDeferred (flowState
            (runConfigs rx w taskName stepName script' cfgs
               \<lparr> result = r0, trace = tr, deferred = [] \<rparr>))))"

subsection \<open>All the scripts of a resource\<close>

fun collectOverSteps ::
  "Matcher \<Rightarrow> World \<Rightarrow> config list \<Rightarrow> Step list \<Rightarrow> string \<Rightarrow> Result \<times> Event list \<Rightarrow> Panic + (Result \<times> Event list)" where
  "collectOverSteps rx w cfgs [] name acc = Inr acc"
| "collectOverSteps rx w cfgs (step # steps) name acc =
     (if Script step \<noteq> '''' then
        (case validateScript rx w name (Script step) cfgs (Name step) (snd acc) of
           Inl p \<Rightarrow> Inl p
         | Inr out \<Rightarrow> collectOverSteps rx w cfgs steps name (Append (fst acc) (fst out), snd out))
      else collectOverSteps rx w cfgs steps name acc)"

text \<open>
  \<^verbatim>\<open>taskLinter.Validate\<close>. The type assertions are of the one-result form, which panics when
  the dynamic type is another one. For the kind \<^verbatim>\<open>task\<close> the first one is
  \<^verbatim>\<open>res.(*v1.Task)\<close>: any other dynamic type panics there; a nil \<^verbatim>\<open>*v1.Task\<close> passes it,
  fails the comparison with nil, and panics in the \<^verbatim>\<open>else\<close> branch at \<^verbatim>\<open>res.(*v1beta1.Task)\<close>.
\<close>

definition taskLinter_Validate :: "Matcher \<Rightarrow> World \<Rightarrow> taskLinter \<Rightarrow> Panic + (Result \<times> Event list)" where
  "taskLinter_Validate rx w t =
     (case ToType (res t) of
        Inl err \<Rightarrow> Inr (Err (Result []) (msgDecode err), [])
      | Inr d \<Rightarrow>
          (let kind = ToLower (Kind (res t)) in
           if kind = ''task'' then
             (case d of
                V1TaskPtr (Some task) \<Rightarrow>
                  collectOverSteps rx w (configs t) (SpecSteps task) (ObjectMetaName task) (Result [], [])
              | V1TaskPtr None \<Rightarrow> Inl InterfaceConversion
              | _ \<Rightarrow> Inl InterfaceConversion)
           else if kind = ''clustertask'' then
             (case d of
                V1beta1ClusterTaskPtr (Some task) \<Rightarrow>
                  collectOverSteps rx w (configs t) (SpecSteps task) (ObjectMetaName task) (Result [], [])
              | V1beta1ClusterTaskPtr None \<Rightarrow> Inl NilDereference
              | _ \<Rightarrow> Inl InterfaceConversion)
           else Inr (Result [], [])))"

section \<open>Concrete inputs\<close>

text \<open>The inputs of the concrete runs below.\<close>

definition hex64 :: string where
  "hex64 = ''0123456789abcdef0123456789abcdef0123456789abcdef0123456789abcdef''"

definition secretEnv :: EnvVar where
  "secretEnv = \<lparr> VarName = ''TOKEN'', ValueFrom = Some \<lparr> SecretKeyRef = Some ''token'' \<rparr> \<rparr>"

definition demoStep :: "string \<Rightarrow> Step" where
  "demoStep img =
     \<lparr> Name = ''build'', Image = img, Script = ''echo $(params.name)'',
       Env = [secretEnv], EnvFrom = [\<lparr> SecretRef = Some ''creds'' \<rparr>] \<rparr>"

definition plainStep :: "string \<Rightarrow> Step" where
  "plainStep img = \<lparr> Name = ''build'', Image = img, Script = '''', Env = [], EnvFrom = [] \<rparr>"

text \<open>
  A world where every command but the listed ones is found under \<^verbatim>\<open>/usr/bin\<close>, temporary
  files are created under fresh names (one more \<^verbatim>\<open>x\<close> for each file created before) and
  written and closed without error, and every linter exits with status 0 and no output.
\<close>

fun isCreate :: "Event \<Rightarrow> bool" where
  "isCreate (CreateTempCall r) = True"
| "isCreate e = False"

definition tmpName :: "Event list \<Rightarrow> string" where
  "tmpName tr = ''/tmp/catlin-script-linter'' @ replicate (length (filter isCreate tr)) (CHR ''x'')"

definition binPath :: "string \<Rightarrow> string" where
  "binPath c = ''/usr/bin/'' @ c"

definition demoWorld :: "string list \<Rightarrow> World" where
  "demoWorld missing =
     \<lparr> LookPath = (\<lambda>tr c. if c \<in> set missing then None else Some (binPath c)),
       CreateTemp = (\<lambda>tr. Some (tmpName tr)),
       WriteFile = (\<lambda>tr n c. True),
       CloseFile = (\<lambda>tr n. True),
       CombinedOutput = (\<lambda>tr p argv c. ('''', True)) \<rparr>"

text \<open>What a trace says about the linters that ran: the path and the configured arguments.\<close>

fun invocationOf :: "Event \<Rightarrow> (string \<times> string list) list" where
  "invocationOf (ExecCall p argv c) = [(p, butlast argv)]"
| "invocationOf e = []"

definition invocations :: "Event list \<Rightarrow> (string \<times> string list) list" where
  "invocations tr = concat (map invocationOf tr)"

text \<open>
  What the table asks for: the linters of every rule that matches, rule after rule in the
  order of the table, each rule's linters in their order.
\<close>

definition matching :: "Matcher \<Rightarrow> string \<Rightarrow> config list \<Rightarrow> config list" where
  "matching rx script cfgs = filter (\<lambda>c. rx (rulePattern c) script = Some True) cfgs"

definition expectedInvocations :: "(string \<Rightarrow> string) \<Rightarrow> config list \<Rightarrow> (string \<times> string list) list" where
  "expectedInvocations resolve cfgs =
     concat (map (\<lambda>c. map (\<lambda>l. (resolve (cmd l), args l)) (linters c)) cfgs)"

text \<open>
  A rule whose pattern does not compile (an opening parenthesis that is never closed), a
  rule for every interpreter whose path ends in \<^verbatim>\<open>sh\<close>, and a script for the POSIX shell
  that names it through \<^verbatim>\<open>env\<close>.
\<close>

definition badRule :: config where
  "badRule = \<lparr> regexp = ''('', linters = [ \<lparr> cmd = ''true'', args = [] \<rparr> ] \<rparr>"

definition extraRule :: config where
  "extraRule = \<lparr> regexp = ''.*sh'', linters = [ \<lparr> cmd = ''checkbashisms'', args = [''-f''] \<rparr> ] \<rparr>"

definition shRule :: config where
  "shRule = hd NewConfig"

definition demoScript :: string where
  "demoScript = ''#!/usr/bin/env sh\<newline>echo hi\<newline>''"

text \<open>
  What a trace must say for a text to be the one handed to the linters: every write puts
  that text into the file, and every run of a linter reads that text from the file named
  by its last argument, which a write of the trace has filled.
\<close>

fun handedText :: "string \<Rightarrow> Event list \<Rightarrow> Event \<Rightarrow> bool" where
  "handedText text evs (WriteCall n c) = (c = text)"
| "handedText text evs (ExecCall p argv c) =
     (c = text \<and> argv \<noteq> [] \<and> WriteCall (last argv) text \<in> set evs)"
| "handedText text evs e = True"

text \<open>The state in which the loop over the rules starts, and the trace of a concrete run.\<close>

definition startState :: "Result \<Rightarrow> Event list \<Rightarrow> LintState" where
  "startState r0 tr = \<lparr> result = r0, trace = tr, deferred = [] \<rparr>"

definition shRuleTrace :: "string \<Rightarrow> Event list" where
  "shRuleTrace script =
     [ LookPathCall ''shellcheck'',
       CreateTempCall (Some ''/tmp/catlin-script-linter''),
       WriteCall ''/tmp/catlin-script-linter'' script,
       CloseCall ''/tmp/catlin-script-linter'',
       ExecCall ''/usr/bin/shellcheck'' [''-s'', ''sh'', ''/tmp/catlin-script-linter''] script,
       LookPathCall ''sh'',
       CreateTempCall (Some ''/tmp/catlin-script-linterx''),
       WriteCall ''/tmp/catlin-script-linterx'' script,
       CloseCall ''/tmp/catlin-script-linterx'',
       ExecCall ''/usr/bin/sh'' [''-n'', ''/tmp/catlin-script-linterx''] script ]"

definition shRuleState :: "string \<Rightarrow> LintState" where
  "shRuleState script =
     \<lparr> result = Result [], trace = shRuleTrace script,
       deferred = [''/tmp/catlin-script-linterx'', ''/tmp/catlin-script-linter''] \<rparr>"

section \<open>Properties of Result\<close>

lemma findings_Warn [simp]: "findings (Warn r m) = findings r @ [(Warning, m)]"
  by (simp add: Warn_def)

lemma findings_Err [simp]: "findings (Err r m) = findings r @ [(Error, m)]"
  by (simp add: Err_def)

lemma findings_Append [simp]: "findings (Append a b) = findings a @ findings b"
  by (simp add: Append_def)

lemma Result_eqI: "findings a = findings b \<Longrightarrow> a = b"
  by (cases a, cases b) simp

text \<open>
  Claim C8. Appending B into A gives a Result whose findings are A's findings followed by
  B's findings, in order; the merge is associative, the empty Result is neutral on both
  sides, and a finding added to B after the merge lands where it would have landed
  before it.
\<close>

theorem Append_order_assoc:
  "findings (Append A B) = findings A @ findings B
   \<and> Append (Append A B) C = Append A (Append B C)
   \<and> Append (Result []) A = A \<and> Append A (Result []) = A
   \<and> Append A (Warn B m) = Warn (Append A B) m
   \<and> Append A (Err B m) = Err (Append A B) m"
  by (auto intro: Result_eqI)

section \<open>Properties of the string functions\<close>

lemma Contains_append_right: "Contains b x \<Longrightarrow> Contains (a @ b) x"
proof (induction a)
  case Nil
  then show ?case by simp
next
  case (Cons c a)
  then show ?case by simp
qed

lemma Contains_sublist: "Contains s x = sublist x s"
proof (induction s)
  case Nil
  then show ?case by simp
next
  case (Cons c s)
  then show ?case by (simp add: sublist_Cons_right)
qed

lemma splitFrom_not_Nil: "splitFrom sep k acc s \<noteq> []"
  by (induction s arbitrary: k acc) auto

lemma Split_not_Nil: "Split s sep \<noteq> []"
  by (simp add: Split_def splitFrom_not_Nil)

lemma matchExprHere_dollar: "matchExprHere pfx (c # cs) = Some m \<Longrightarrow> c = CHR ''$''"
  by (auto simp: matchExprHere_def split: if_splits)

lemma findExpr_no_dollar: "CHR ''$'' \<notin> set s \<Longrightarrow> findExpr pfx s = None"
proof (induction s)
  case Nil
  then show ?case by simp
next
  case (Cons c s)
  then have "matchExprHere pfx (c # s) = None"
    using matchExprHere_dollar [of pfx c s] by (cases "matchExprHere pfx (c # s)") auto
  with Cons show ?case by simp
qed

lemma no_variables_without_dollar:
  "CHR ''$'' \<notin> set s \<Longrightarrow> extractExpressionFromString s pfx = ('''', False)"
  by (simp add: extractExpressionFromString_def findExpr_no_dollar)

lemma hexChar_not_dollar: "hexChar c \<Longrightarrow> c \<noteq> CHR ''$''"
  by (auto simp: hexChar_def isDigit_def)

section \<open>Properties of the task validator\<close>

text \<open>The two schema revisions of a step are validated alike.\<close>

lemma envRule_version: "envRule ''v1beta1'' n e r = envRule ''v1'' n e r"
  by (simp add: envRule_def)

lemma envFromRule_version: "envFromRule ''v1beta1'' n e r = envFromRule ''v1'' n e r"
  by (simp add: envFromRule_def)

lemma validateStep_revisions: "validateStep lib (V1beta1Step s) = validateStep lib (V1Step s)"
proof -
  have "envRule ''v1beta1'' (Name s) = envRule ''v1'' (Name s)"
    by (intro ext) (simp add: envRule_version)
  moreover have "envFromRule ''v1beta1'' (Name s) = envFromRule ''v1'' (Name s)"
    by (intro ext) (simp add: envFromRule_version)
  ultimately show ?thesis
    by (simp add: validateStep_def validateFields_def Let_def split: sum.splits)
qed

lemma validateFields_variables:
  "snd (extractExpressionFromString (Image s) '''') \<Longrightarrow>
   findings (validateFields lib v s) = [(Warning, msgVariables (Name s) (Image s))]"
  by (simp add: validateFields_def Let_def)

lemma validateFields_digest_rejected:
  "\<not> snd (extractExpressionFromString (Image s) '''') \<Longrightarrow> Contains (Image s) ''@sha256'' \<Longrightarrow>
   NewDigest lib (Image s) = Inl err \<Longrightarrow>
   findings (validateFields lib v s)
     = registryFindings (Name s) (Image s) @ [(Error, msgInvalidDigest (Name s) (Image s) err)]"
  by (simp add: validateFields_def Let_def registryFindings_def)

lemma validateFields_digest_accepted:
  "\<not> snd (extractExpressionFromString (Image s) '''') \<Longrightarrow> Contains (Image s) ''@sha256'' \<Longrightarrow>
   NewDigest lib (Image s) = Inr rep \<Longrightarrow>
   findings (validateFields lib v s)
     = registryFindings (Name s) (Image s)
       @ (if tagWithDigest rep then [] else [(Warning, msgTagWithDigest (Name s) (Image s))])"
  by (simp add: validateFields_def Let_def registryFindings_def)

lemma validateFields_tag_rejected:
  "\<not> snd (extractExpressionFromString (Image s) '''') \<Longrightarrow> \<not> Contains (Image s) ''@sha256'' \<Longrightarrow>
   NewTag lib (Image s) = Inl err \<Longrightarrow>
   findings (validateFields lib v s)
     = registryFindings (Name s) (Image s) @ [(Error, msgInvalidTag (Name s) (Image s) err)]"
  by (simp add: validateFields_def Let_def registryFindings_def)

lemma findings_envRule: "\<exists>ws. findings (envRule v n e r) = findings r @ ws"
proof (cases "envRule v n e r = r")
  case True
  then show ?thesis by simp
next
  case False
  then have "envRule v n e r = Warn r (msgSecretEnv n (VarName e))"
    by (auto simp: envRule_def Let_def split: if_splits)
  then show ?thesis by simp
qed

lemma findings_envFromRule: "\<exists>ws. findings (envFromRule v n e r) = findings r @ ws"
proof (cases "envFromRule v n e r = r")
  case True
  then show ?thesis by simp
next
  case False
  then have "envFromRule v n e r = Warn r (msgSecretEnvFrom n)"
    by (auto simp: envFromRule_def split: if_splits)
  then show ?thesis by simp
qed

lemma findings_fold_envRule:
  "\<exists>ws. findings (fold (envRule v n) es r) = findings r @ ws"
proof (induction es arbitrary: r)
  case Nil
  then show ?case by simp
next
  case (Cons e es)
  obtain ws where ws: "findings (fold (envRule v n) es (envRule v n e r)) = findings (envRule v n e r) @ ws"
    using Cons.IH by blast
  obtain w1 where "findings (envRule v n e r) = findings r @ w1"
    using findings_envRule by blast
  with ws show ?case by simp
qed

lemma findings_fold_envFromRule:
  "\<exists>ws. findings (fold (envFromRule v n) es r) = findings r @ ws"
proof (induction es arbitrary: r)
  case Nil
  then show ?case by simp
next
  case (Cons e es)
  obtain ws where ws: "findings (fold (envFromRule v n) es (envFromRule v n e r)) = findings (envFromRule v n e r) @ ws"
    using Cons.IH by blast
  obtain w1 where "findings (envFromRule v n e r) = findings r @ w1"
    using findings_envFromRule by blast
  with ws show ?case by simp
qed

lemma findings_scriptRule: "\<exists>ws. findings (scriptRule n sc r) = findings r @ ws"
proof (cases "scriptRule n sc r = r")
  case True
  then show ?thesis by simp
next
  case False
  then have "scriptRule n sc r = Warn r (msgScriptParam n (fst (extractExpressionFromString sc ''params'')))"
    by (auto simp: scriptRule_def Let_def split: if_splits)
  then show ?thesis by simp
qed

lemma validateFields_tag_accepted:
  assumes "\<not> snd (extractExpressionFromString (Image s) '''')"
      and "\<not> Contains (Image s) ''@sha256''"
      and "NewTag lib (Image s) = Inr ident"
  shows "\<exists>ws. findings (validateFields lib v s)
     = registryFindings (Name s) (Image s)
       @ (if EqualFold ident ''latest'' then [(Error, msgLatest (Name s) (Image s))] else [])
       @ ws"
proof -
  define r1 where "r1 = Result (registryFindings (Name s) (Image s)
       @ (if EqualFold ident ''latest'' then [(Error, msgLatest (Name s) (Image s))] else []))"
  have eq: "validateFields lib v s
      = scriptRule (Name s) (Script s)
          (fold (envFromRule v (Name s)) (EnvFrom s) (fold (envRule v (Name s)) (Env s) r1))"
    using assms
    by (auto simp: validateFields_def Let_def registryFindings_def r1_def Warn_def Err_def)
  obtain w1 where w1: "findings (fold (envRule v (Name s)) (Env s) r1) = findings r1 @ w1"
    using findings_fold_envRule by blast
  obtain w2 where w2: "findings (fold (envFromRule v (Name s)) (EnvFrom s) (fold (envRule v (Name s)) (Env s) r1))
      = findings (fold (envRule v (Name s)) (Env s) r1) @ w2"
    using findings_fold_envFromRule by blast
  obtain w3 where w3: "findings (validateFields lib v s)
      = findings (fold (envFromRule v (Name s)) (EnvFrom s) (fold (envRule v (Name s)) (Env s) r1)) @ w3"
    unfolding eq using findings_scriptRule by blast
  show ?thesis
    using w1 w2 w3 by (simp add: r1_def)
qed

text \<open>
  The dot of the parameter pattern takes a whole code point: with the two bytes of an
  e with acute accent after the parenthesis, the images below hold a variable expression,
  and the step gets the Warning of the rule on variables and nothing else, whatever the
  collaborator says about the digest or the tag.
\<close>

lemma variable_after_two_byte_character:
  "extractExpressionFromString (''host.example.com/repo@sha256:$('' @ [CHR 0xC3, CHR 0xA9] @ ''abc)'') ''''
     = (''$('' @ [CHR 0xC3, CHR 0xA9] @ ''abc)'', True)
   \<and> extractExpressionFromString (''$('' @ [CHR 0xC3, CHR 0xA9] @ ''a.b)/repo:latest'') ''''
     = (''$('' @ [CHR 0xC3, CHR 0xA9] @ ''a.b)'', True)
   \<and> extractExpressionFromString (''$('' @ [CHR 0xE2, CHR 0x82, CHR 0xAC] @ ''ab)'') ''''
     = (''$('' @ [CHR 0xE2, CHR 0x82, CHR 0xAC] @ ''ab)'', True)
   \<and> extractExpressionFromString (''$('' @ [CHR 0xED, CHR 0xA0, CHR 0x80] @ ''ab)'') '''' = ('''', False)"
  by code_simp

lemma variable_image_is_skipped:
  "findings (validateStep lib (V1Step \<lparr> Name = n, Image = ''$('' @ [CHR 0xC3, CHR 0xA9] @ ''a.b)/repo:latest'',
       Script = sc, Env = env, EnvFrom = envFrom \<rparr>))
     = [(Warning, msgVariables n (''$('' @ [CHR 0xC3, CHR 0xA9] @ ''a.b)/repo:latest''))]
   \<and> findings (validateStep lib (V1Step \<lparr> Name = n,
       Image = ''host.example.com/repo@sha256:$('' @ [CHR 0xC3, CHR 0xA9] @ ''abc)'',
       Script = sc, Env = env, EnvFrom = envFrom \<rparr>))
     = [(Warning, msgVariables n (''host.example.com/repo@sha256:$('' @ [CHR 0xC3, CHR 0xA9] @ ''abc)''))]"
proof -
  have a: "snd (extractExpressionFromString (''$('' @ [CHR 0xC3, CHR 0xA9] @ ''a.b)/repo:latest'') '''')"
    using variable_after_two_byte_character by simp
  have b: "snd (extractExpressionFromString (''host.example.com/repo@sha256:$('' @ [CHR 0xC3, CHR 0xA9] @ ''abc)'') '''')"
    using variable_after_two_byte_character by simp
  show ?thesis
    using a b by (simp add: validateStep_def validateFields_def Let_def)
qed

lemma validateStep_V1: "validateStep lib (V1Step s) = validateFields lib ''v1'' s"
  by (simp add: validateStep_def)

lemma validateFields_ignores_rest:
  "Contains (Image s) ''@sha256'' \<Longrightarrow>
   validateFields lib v (s\<lparr> Env := env, EnvFrom := envFrom, Script := script \<rparr>) = validateFields lib v s"
  by (simp add: validateFields_def Let_def)

lemma registryFindings_cases:
  "registryFindings n i = [] \<or> registryFindings n i = [(Warning, msgRegistry n i)]"
  by (simp add: registryFindings_def)

lemma validateFields_digest_shape:
  assumes "Contains (Image s) ''@sha256''"
  shows "findings (validateFields lib v s) = [(Warning, msgVariables (Name s) (Image s))]
       \<or> (\<exists>err. findings (validateFields lib v s)
             = registryFindings (Name s) (Image s) @ [(Error, msgInvalidDigest (Name s) (Image s) err)])
       \<or> findings (validateFields lib v s) = registryFindings (Name s) (Image s)
       \<or> findings (validateFields lib v s)
             = registryFindings (Name s) (Image s) @ [(Warning, msgTagWithDigest (Name s) (Image s))]"
proof (cases "snd (extractExpressionFromString (Image s) '''')")
  case True
  then show ?thesis by (simp add: validateFields_variables)
next
  case False
  show ?thesis
  proof (cases "NewDigest lib (Image s)")
    case (Inl err)
    then show ?thesis
      using False assms validateFields_digest_rejected [of s lib err v] by blast
  next
    case (Inr rep)
    then show ?thesis
      using False assms validateFields_digest_accepted [of s lib rep v]
      by (cases "tagWithDigest rep") auto
  qed
qed

text \<open>
  Claim C2, as amended. For a step whose image is in digest form, \<^verbatim>\<open>validateStep\<close> returns
  when the digest rule is done: the outcome is the same whatever the environment
  variables, the bulk environment sources and the script of the step are, in both schema
  revisions; it has at most two findings, each of them the Warning of the variable rule,
  the Warning of the registry rule, the Error of a rejected digest or the Warning that
  recommends a tag along with the digest. The secret and script rules are not applied.
\<close>

theorem digest_form_ends_step:
  assumes "Contains (Image s) ''@sha256''"
  shows "validateStep lib (V1Step (s\<lparr> Env := env, EnvFrom := envFrom, Script := script \<rparr>))
           = validateStep lib (V1Step s)
       \<and> validateStep lib (V1beta1Step (s\<lparr> Env := env, EnvFrom := envFrom, Script := script \<rparr>))
           = validateStep lib (V1beta1Step s)
       \<and> length (findings (validateStep lib (V1Step s))) \<le> 2
       \<and> set (findings (validateStep lib (V1Step s)))
           \<subseteq> {(Warning, msgVariables (Name s) (Image s)),
               (Warning, msgRegistry (Name s) (Image s)),
               (Warning, msgTagWithDigest (Name s) (Image s))}
             \<union> {(Error, msgInvalidDigest (Name s) (Image s) err) | err. True}"
proof -
  have same: "validateStep lib (V1Step (s\<lparr> Env := env, EnvFrom := envFrom, Script := script \<rparr>))
           = validateStep lib (V1Step s)"
    using assms by (simp add: validateStep_V1 validateFields_ignores_rest)
  have same': "validateStep lib (V1beta1Step (s\<lparr> Env := env, EnvFrom := envFrom, Script := script \<rparr>))
           = validateStep lib (V1beta1Step s)"
    using same by (simp add: validateStep_revisions)
  have shape: "findings (validateStep lib (V1Step s)) = [(Warning, msgVariables (Name s) (Image s))]
       \<or> (\<exists>err. findings (validateStep lib (V1Step s))
             = registryFindings (Name s) (Image s) @ [(Error, msgInvalidDigest (Name s) (Image s) err)])
       \<or> findings (validateStep lib (V1Step s)) = registryFindings (Name s) (Image s)
       \<or> findings (validateStep lib (V1Step s))
             = registryFindings (Name s) (Image s) @ [(Warning, msgTagWithDigest (Name s) (Image s))]"
    using validateFields_digest_shape [OF assms, of lib "''v1''"] by (simp add: validateStep_V1)
  have len: "length (findings (validateStep lib (V1Step s))) \<le> 2"
    using shape registryFindings_cases [of "Name s" "Image s"] by auto
  have sub: "set (findings (validateStep lib (V1Step s)))
           \<subseteq> {(Warning, msgVariables (Name s) (Image s)),
               (Warning, msgRegistry (Name s) (Image s)),
               (Warning, msgTagWithDigest (Name s) (Image s))}
             \<union> {(Error, msgInvalidDigest (Name s) (Image s) err) | err. True}"
    using shape registryFindings_cases [of "Name s" "Image s"] by auto
  show ?thesis using same same' len sub by blast
qed

lemma demoStep_plain:
  "(demoStep img)\<lparr> Env := [], EnvFrom := [], Script := '''' \<rparr> = plainStep img"
  by (simp add: demoStep_def plainStep_def)

lemma demo_digest_image: "Contains (''host.example.com/repo:v1@sha256:'' @ hex64) ''@sha256''"
  by simp

theorem digest_form_ends_step_witness:
  "Contains (Image (demoStep (''host.example.com/repo:v1@sha256:'' @ hex64))) ''@sha256''
   \<and> validateStep refLib (V1Step (plainStep (''host.example.com/repo:v1@sha256:'' @ hex64)))
       = validateStep refLib (V1Step (demoStep (''host.example.com/repo:v1@sha256:'' @ hex64)))
   \<and> length (findings (validateStep refLib (V1Step (demoStep (''host.example.com/repo:v1@sha256:'' @ hex64))))) \<le> 2"
proof -
  have h: "Contains (Image (demoStep (''host.example.com/repo:v1@sha256:'' @ hex64))) ''@sha256''"
    using demo_digest_image by (simp add: demoStep_def)
  show ?thesis
    using h digest_form_ends_step [OF h, of refLib "[]" "[]" "''''"]
    by (simp add: demoStep_plain)
qed

text \<open>
  The claim as the specification states it fails: a step of a \<^verbatim>\<open>v1.Task\<close> whose image has a
  tag and a well-formed digest, with an environment variable read from a secret, a bulk
  source backed by a secret and a script that names a parameter, gets no finding at all,
  while the same step with the image \<^verbatim>\<open>host.example.com/repo:v1\<close> gets the three Warnings.
\<close>

theorem digest_step_skips_later_rules:
  "refNewDigest (''host.example.com/repo:v1@sha256:'' @ hex64)
     = Inr (''host.example.com/repo:v1@sha256:'' @ hex64)
   \<and> Env (demoStep (''host.example.com/repo:v1@sha256:'' @ hex64)) = [secretEnv]
   \<and> Script (demoStep (''host.example.com/repo:v1@sha256:'' @ hex64)) = ''echo $(params.name)''
   \<and> findings (validateStep refLib (V1Step (demoStep (''host.example.com/repo:v1@sha256:'' @ hex64)))) = []
   \<and> findings (validateStep refLib (V1Step (demoStep ''host.example.com/repo:v1'')))
       = [(Warning, msgSecretEnv ''build'' ''TOKEN''),
          (Warning, msgSecretEnvFrom ''build''),
          (Warning, msgScriptParam ''build'' ''$(params.name)'')]"
proof -
  have a: "refNewDigest (''host.example.com/repo:v1@sha256:'' @ hex64)
     = Inr (''host.example.com/repo:v1@sha256:'' @ hex64)"
    by code_simp
  have b: "findings (validateStep refLib (V1Step (demoStep (''host.example.com/repo:v1@sha256:'' @ hex64)))) = []"
    by code_simp
  have c: "findings (validateStep refLib (V1Step (demoStep ''host.example.com/repo:v1'')))
       = [(Warning, msgSecretEnv ''build'' ''TOKEN''),
          (Warning, msgSecretEnvFrom ''build''),
          (Warning, msgScriptParam ''build'' ''$(params.name)'')]"
    by code_simp
  show ?thesis using a b c by (simp add: demoStep_def)
qed

lemma hex_image_no_dollar:
  "list_all hexChar hex \<Longrightarrow> CHR ''$'' \<notin> set (''host.example.com/repo@sha256:'' @ hex)"
  using hexChar_not_dollar by (auto simp: list_all_iff)

lemma hex_image_registry: "registryFindings n (''host.example.com/repo@sha256:'' @ hex) = []"
  by (simp add: registryFindings_def isValidRegistry_def Split_def)

lemma hex_image_no_tag: "\<not> tagWithDigest (''host.example.com/repo@sha256:'' @ hex)"
  by (simp add: tagWithDigest_def Split_def HasSuffix_def)

lemma hex_image_digest_form: "Contains (''host.example.com/repo@sha256:'' @ hex) ''@sha256''"
  by simp

lemma validateStep_without_NewTag:
  "Contains (Image s) ''@sha256'' \<Longrightarrow>
   validateStep (lib\<lparr> NewTag := other \<rparr>) (V1Step s) = validateStep lib (V1Step s)"
  by (simp add: validateStep_V1 validateFields_def Let_def)

text \<open>
  Claim C5, as amended. For an image \<^verbatim>\<open>host.example.com/repo@sha256:\<close> followed by 64
  hexadecimal digits, which the collaborator parses as a digest reference that prints as
  the image, the findings of the step are exactly one Warning, the one that recommends a
  tag along with the digest, and so no Error. For an image in digest form that holds no
  variable expression and whose digest the collaborator rejects, the findings are the
  Warning of the registry rule, if any, and then one Error on the invalid digest; the tag
  parser has no part in the outcome.
\<close>

theorem digest_rule_findings:
  "(list_all hexChar hex \<and> length hex = 64
      \<and> Image s = ''host.example.com/repo@sha256:'' @ hex
      \<and> NewDigest lib (Image s) = Inr (Image s)
     \<longrightarrow> findings (validateStep lib (V1Step s)) = [(Warning, msgTagWithDigest (Name s) (Image s))]
         \<and> errorsOf (validateStep lib (V1Step s)) = [])
   \<and> (Contains (Image s) ''@sha256''
      \<and> \<not> snd (extractExpressionFromString (Image s) '''')
      \<and> NewDigest lib (Image s) = Inl err
     \<longrightarrow> findings (validateStep lib (V1Step s))
           = registryFindings (Name s) (Image s) @ [(Error, msgInvalidDigest (Name s) (Image s) err)]
         \<and> validateStep (lib\<lparr> NewTag := other \<rparr>) (V1Step s) = validateStep lib (V1Step s))"
proof (intro conjI impI)
  assume h: "list_all hexChar hex \<and> length hex = 64
      \<and> Image s = ''host.example.com/repo@sha256:'' @ hex
      \<and> NewDigest lib (Image s) = Inr (Image s)"
  then have img: "Image s = ''host.example.com/repo@sha256:'' @ hex" by blast
  have hx: "list_all hexChar hex" using h by blast
  have "CHR ''$'' \<notin> set (Image s)"
    unfolding img by (rule hex_image_no_dollar [OF hx])
  then have novars: "\<not> snd (extractExpressionFromString (Image s) '''')"
    by (simp add: no_variables_without_dollar)
  have form: "Contains (Image s) ''@sha256''"
    unfolding img by (rule hex_image_digest_form)
  have nd: "NewDigest lib (Image s) = Inr (Image s)"
    using h by blast
  have acc: "findings (validateFields lib ''v1'' s)
     = registryFindings (Name s) (Image s)
       @ (if tagWithDigest (Image s) then [] else [(Warning, msgTagWithDigest (Name s) (Image s))])"
    by (rule validateFields_digest_accepted [OF novars form nd])
  have r: "registryFindings (Name s) (Image s) = []"
    unfolding img by (rule hex_image_registry)
  have t: "\<not> tagWithDigest (Image s)"
    unfolding img by (rule hex_image_no_tag)
  show f: "findings (validateStep lib (V1Step s)) = [(Warning, msgTagWithDigest (Name s) (Image s))]"
    using acc r t by (simp add: validateStep_V1)
  show "errorsOf (validateStep lib (V1Step s)) = []"
    by (simp add: errorsOf_def f)
next
  assume h: "Contains (Image s) ''@sha256''
      \<and> \<not> snd (extractExpressionFromString (Image s) '''')
      \<and> NewDigest lib (Image s) = Inl err"
  then show "findings (validateStep lib (V1Step s))
           = registryFindings (Name s) (Image s) @ [(Error, msgInvalidDigest (Name s) (Image s) err)]"
    using validateFields_digest_rejected [of s lib err "''v1''"] by (simp add: validateStep_V1)
  from h show "validateStep (lib\<lparr> NewTag := other \<rparr>) (V1Step s) = validateStep lib (V1Step s)"
    by (simp add: validateStep_without_NewTag)
qed

lemma hex64_ok: "list_all hexChar hex64 \<and> length hex64 = 64"
  by code_simp

lemma refNewDigest_hex64:
  "refNewDigest (''host.example.com/repo@sha256:'' @ hex64) = Inr (''host.example.com/repo@sha256:'' @ hex64)"
  by code_simp

lemma refNewDigest_short:
  "refNewDigest ''host.example.com/repo@sha256:abc''
     = Inl ''invalid checksum digest length or format: sha256:abc''"
  by code_simp

lemma short_digest_no_variables:
  "\<not> snd (extractExpressionFromString ''host.example.com/repo@sha256:abc'' '''')"
  by code_simp

theorem digest_rule_findings_witness:
  "list_all hexChar hex64 \<and> length hex64 = 64
   \<and> NewDigest refLib (''host.example.com/repo@sha256:'' @ hex64) = Inr (''host.example.com/repo@sha256:'' @ hex64)
   \<and> findings (validateStep refLib (V1Step (plainStep (''host.example.com/repo@sha256:'' @ hex64))))
       = [(Warning, msgTagWithDigest ''build'' (''host.example.com/repo@sha256:'' @ hex64))]
   \<and> Contains ''host.example.com/repo@sha256:abc'' ''@sha256''
   \<and> \<not> snd (extractExpressionFromString ''host.example.com/repo@sha256:abc'' '''')
   \<and> NewDigest refLib ''host.example.com/repo@sha256:abc''
       = Inl ''invalid checksum digest length or format: sha256:abc''
   \<and> findings (validateStep refLib (V1Step (plainStep ''host.example.com/repo@sha256:abc'')))
       = [(Error, msgInvalidDigest ''build'' ''host.example.com/repo@sha256:abc''
                    ''invalid checksum digest length or format: sha256:abc'')]"
proof -
  have a: "NewDigest refLib (''host.example.com/repo@sha256:'' @ hex64) = Inr (''host.example.com/repo@sha256:'' @ hex64)"
    using refNewDigest_hex64 by (simp add: refLib_def)
  have b: "NewDigest refLib ''host.example.com/repo@sha256:abc''
       = Inl ''invalid checksum digest length or format: sha256:abc''"
    using refNewDigest_short by (simp add: refLib_def)
  have c: "Contains ''host.example.com/repo@sha256:abc'' ''@sha256''"
    by simp
  have r: "registryFindings ''build'' ''host.example.com/repo@sha256:abc'' = []"
    by (simp add: registryFindings_def isValidRegistry_def Split_def)
  have one: "findings (validateStep refLib (V1Step (plainStep (''host.example.com/repo@sha256:'' @ hex64))))
       = [(Warning, msgTagWithDigest ''build'' (''host.example.com/repo@sha256:'' @ hex64))]"
    using digest_rule_findings [of hex64 "plainStep (''host.example.com/repo@sha256:'' @ hex64)" refLib] hex64_ok a
    by (simp add: plainStep_def)
  have two: "findings (validateStep refLib (V1Step (plainStep ''host.example.com/repo@sha256:abc'')))
       = [(Error, msgInvalidDigest ''build'' ''host.example.com/repo@sha256:abc''
                    ''invalid checksum digest length or format: sha256:abc'')]"
    using digest_rule_findings [of _ "plainStep ''host.example.com/repo@sha256:abc''" refLib
        "''invalid checksum digest length or format: sha256:abc''"] b c short_digest_no_variables r
    by (simp add: plainStep_def)
  show ?thesis using hex64_ok a b c short_digest_no_variables one two by blast
qed

text \<open>
  The claim as the specification states it fails on an image whose digest is a parameter:
  the digest is not 64 hexadecimal digits and the collaborator rejects it, but the rule
  on variables comes first and ends the step with one Warning, so there is no Error.
\<close>

theorem variable_digest_no_error:
  "Contains ''host.example.com/repo@sha256:$(params.digest)'' ''@sha256''
   \<and> \<not> checkElement hexChar 64 64 ''$(params.digest)''
   \<and> isl (NewDigest refLib ''host.example.com/repo@sha256:$(params.digest)'')
   \<and> findings (validateStep refLib (V1Step (plainStep ''host.example.com/repo@sha256:$(params.digest)'')))
       = [(Warning, msgVariables ''build'' ''host.example.com/repo@sha256:$(params.digest)'')]
   \<and> errorsOf (validateStep refLib (V1Step (plainStep ''host.example.com/repo@sha256:$(params.digest)''))) = []"
proof -
  have a: "Contains ''host.example.com/repo@sha256:$(params.digest)'' ''@sha256''"
    by simp
  have b: "\<not> checkElement hexChar 64 64 ''$(params.digest)''"
    by code_simp
  have c: "isl (NewDigest refLib ''host.example.com/repo@sha256:$(params.digest)'')"
    by code_simp
  have d: "findings (validateStep refLib (V1Step (plainStep ''host.example.com/repo@sha256:$(params.digest)'')))
       = [(Warning, msgVariables ''build'' ''host.example.com/repo@sha256:$(params.digest)'')]"
    by code_simp
  have e: "errorsOf (validateStep refLib (V1Step (plainStep ''host.example.com/repo@sha256:$(params.digest)''))) = []"
    by (simp add: errorsOf_def d)
  show ?thesis using a b c d e by blast
qed

lemma msgLatest_text: "Contains (msgLatest n i) ''specific version''"
proof -
  have "Contains '' which must be tagged with a specific version'' ''specific version''"
    by simp
  then have "Contains ((''Step '' @ quote n @ '' uses image '' @ quote i)
      @ '' which must be tagged with a specific version'') ''specific version''"
    by (rule Contains_append_right)
  then show ?thesis by (simp add: msgLatest_def)
qed

lemma latest_image_plain:
  "\<not> snd (extractExpressionFromString ''host.example.com/repo:latest'' '''')
   \<and> \<not> Contains ''host.example.com/repo:latest'' ''@sha256''"
  by code_simp

text \<open>
  Claim C6, as amended. For a step whose image holds no variable expression, is not in
  digest form and parses to a tag reference, a tag equal to \<^verbatim>\<open>latest\<close> up to the case of its
  letters gives an Error finding, in both schema revisions, and the text of that finding
  contains \<^verbatim>\<open>specific version\<close>. The image \<^verbatim>\<open>host.example.com/repo:latest\<close> is such an image
  whenever the collaborator reads a tag of that kind from it.
\<close>

theorem latest_tag_is_error:
  "(\<not> snd (extractExpressionFromString (Image s) '''')
      \<and> \<not> Contains (Image s) ''@sha256''
      \<and> NewTag lib (Image s) = Inr ident \<and> EqualFold ident ''latest''
     \<longrightarrow> (Error, msgLatest (Name s) (Image s)) \<in> set (findings (validateStep lib (V1Step s)))
         \<and> (Error, msgLatest (Name s) (Image s)) \<in> set (findings (validateStep lib (V1beta1Step s)))
         \<and> Contains (msgLatest (Name s) (Image s)) ''specific version'')
   \<and> (Image s = ''host.example.com/repo:latest''
      \<and> NewTag lib (Image s) = Inr ident \<and> EqualFold ident ''latest''
     \<longrightarrow> (Error, msgLatest (Name s) (Image s)) \<in> set (findings (validateStep lib (V1Step s))))"
proof -
  have main: "(Error, msgLatest (Name s) (Image s)) \<in> set (findings (validateStep lib (V1Step s)))"
    if a: "\<not> snd (extractExpressionFromString (Image s) '''')"
      and b: "\<not> Contains (Image s) ''@sha256''"
      and c: "NewTag lib (Image s) = Inr ident"
      and d: "EqualFold ident ''latest''"
  proof -
    obtain ws where "findings (validateFields lib ''v1'' s)
       = registryFindings (Name s) (Image s)
         @ (if EqualFold ident ''latest'' then [(Error, msgLatest (Name s) (Image s))] else [])
         @ ws"
      using validateFields_tag_accepted [OF a b c, of "''v1''"] by blast
    then show ?thesis using d by (simp add: validateStep_V1)
  qed
  have plain: "\<not> snd (extractExpressionFromString (Image s) '''') \<and> \<not> Contains (Image s) ''@sha256''"
    if "Image s = ''host.example.com/repo:latest''"
    unfolding that by (rule latest_image_plain)
  show ?thesis
    using main plain msgLatest_text [of "Name s" "Image s"]
    by (auto simp: validateStep_revisions)
qed

lemma refNewTag_latest: "refNewTag ''host.example.com/repo:latest'' = Inr ''latest''"
  by code_simp

lemma EqualFold_latest: "EqualFold ''latest'' ''latest''"
  by (simp add: EqualFold_def)

theorem latest_tag_is_error_witness:
  "\<not> snd (extractExpressionFromString ''host.example.com/repo:latest'' '''')
   \<and> \<not> Contains ''host.example.com/repo:latest'' ''@sha256''
   \<and> NewTag refLib ''host.example.com/repo:latest'' = Inr ''latest''
   \<and> EqualFold ''latest'' ''latest''
   \<and> (Error, msgLatest ''build'' ''host.example.com/repo:latest'')
        \<in> set (findings (validateStep refLib (V1Step (plainStep ''host.example.com/repo:latest''))))
   \<and> Contains (msgLatest ''build'' ''host.example.com/repo:latest'') ''specific version''"
proof -
  have t: "NewTag refLib ''host.example.com/repo:latest'' = Inr ''latest''"
    using refNewTag_latest by (simp add: refLib_def)
  have "(Error, msgLatest ''build'' ''host.example.com/repo:latest'')
        \<in> set (findings (validateStep refLib (V1Step (plainStep ''host.example.com/repo:latest''))))
      \<and> Contains (msgLatest ''build'' ''host.example.com/repo:latest'') ''specific version''"
    using latest_tag_is_error [of "plainStep ''host.example.com/repo:latest''" refLib "''latest''"]
      latest_image_plain t EqualFold_latest
    by (simp add: plainStep_def)
  then show ?thesis using latest_image_plain t EqualFold_latest by blast
qed

text \<open>
  The claim as the specification states it fails on an image whose registry is a
  parameter: the image is not in digest form, it parses to a tag reference with the tag
  \<^verbatim>\<open>latest\<close>, and the step gets the Warning of the rule on variables and no Error.
\<close>

theorem variable_image_latest_no_error:
  "\<not> Contains ''$(params.registry)/repo:latest'' ''@sha256''
   \<and> NewTag refLib ''$(params.registry)/repo:latest'' = Inr ''latest''
   \<and> EqualFold ''latest'' ''latest''
   \<and> findings (validateStep refLib (V1Step (plainStep ''$(params.registry)/repo:latest'')))
       = [(Warning, msgVariables ''build'' ''$(params.registry)/repo:latest'')]
   \<and> errorsOf (validateStep refLib (V1Step (plainStep ''$(params.registry)/repo:latest''))) = []"
proof -
  have a: "\<not> Contains ''$(params.registry)/repo:latest'' ''@sha256''"
    by simp
  have b: "NewTag refLib ''$(params.registry)/repo:latest'' = Inr ''latest''"
    by code_simp
  have d: "findings (validateStep refLib (V1Step (plainStep ''$(params.registry)/repo:latest'')))
       = [(Warning, msgVariables ''build'' ''$(params.registry)/repo:latest'')]"
    by code_simp
  have e: "errorsOf (validateStep refLib (V1Step (plainStep ''$(params.registry)/repo:latest''))) = []"
    by (simp add: errorsOf_def d)
  show ?thesis using a b d e EqualFold_latest by blast
qed

lemma msg_variables_differs: "msgVariables n i \<noteq> msgTagWithDigest n i"
  by (simp add: msgVariables_def msgTagWithDigest_def)

lemma msg_registry_differs: "msgRegistry n i \<noteq> msgTagWithDigest n i"
  by (simp add: msgRegistry_def msgTagWithDigest_def)

text \<open>
  Claim C10. \<^verbatim>\<open>tagWithDigest\<close> accepts an image as soon as the part before \<^verbatim>\<open>@sha256\<close> has a
  colon and does not end in \<^verbatim>\<open>:latest\<close>, whatever the colon belongs to. So for an image in
  digest form with such a part, and a collaborator that prints a parsed digest as the
  string it parsed, the step gets no Warning that recommends a tag along with the digest.
\<close>

theorem colon_before_digest_no_warning:
  "(Contains (hd (Split img ''@sha256'')) '':'' \<and> \<not> HasSuffix (hd (Split img ''@sha256'')) '':latest''
      \<longrightarrow> tagWithDigest img)
   \<and> (Image s = img \<and> Contains img ''@sha256''
       \<and> Contains (hd (Split img ''@sha256'')) '':'' \<and> \<not> HasSuffix (hd (Split img ''@sha256'')) '':latest''
       \<and> (\<forall>rep. NewDigest lib img = Inr rep \<longrightarrow> rep = img)
      \<longrightarrow> (Warning, msgTagWithDigest (Name s) img) \<notin> set (findings (validateStep lib (V1Step s)))
          \<and> (Warning, msgTagWithDigest (Name s) img) \<notin> set (findings (validateStep lib (V1beta1Step s))))"
proof -
  have twd: "tagWithDigest img"
    if "Contains (hd (Split img ''@sha256'')) '':''" and "\<not> HasSuffix (hd (Split img ''@sha256'')) '':latest''"
    using that by (simp add: tagWithDigest_def)
  have none: "(Warning, msgTagWithDigest (Name s) img) \<notin> set (findings (validateStep lib (V1Step s)))"
    if img: "Image s = img" and form: "Contains img ''@sha256''"
      and t: "tagWithDigest img" and orig: "\<forall>rep. NewDigest lib img = Inr rep \<longrightarrow> rep = img"
  proof (cases "snd (extractExpressionFromString (Image s) '''')")
    case True
    then show ?thesis
      using msg_variables_differs [of "Name s" img]
      by (simp add: validateStep_V1 validateFields_variables img)
  next
    case False
    have form': "Contains (Image s) ''@sha256''" using form img by simp
    have reg: "(Warning, msgTagWithDigest (Name s) img) \<notin> set (registryFindings (Name s) (Image s))"
      using msg_registry_differs [of "Name s" img] by (simp add: registryFindings_def img)
    show ?thesis
    proof (cases "NewDigest lib (Image s)")
      case (Inl err)
      then show ?thesis
        using reg validateFields_digest_rejected [OF False form' Inl, of "''v1''"]
        by (simp add: validateStep_V1)
    next
      case (Inr rep)
      then have "rep = img" using orig img by simp
      then show ?thesis
        using reg t validateFields_digest_accepted [OF False form' Inr, of "''v1''"]
        by (simp add: validateStep_V1)
    qed
  qed
  show ?thesis
    using twd none by (auto simp: validateStep_revisions)
qed

lemma port_image_facts:
  "Contains (''host.example.com:5000/repo@sha256:'' @ hex64) ''@sha256''
   \<and> hd (Split (''host.example.com:5000/repo@sha256:'' @ hex64) ''@sha256'') = ''host.example.com:5000/repo''
   \<and> Contains ''host.example.com:5000/repo'' '':''
   \<and> \<not> HasSuffix ''host.example.com:5000/repo'' '':latest''
   \<and> refNewDigest (''host.example.com:5000/repo@sha256:'' @ hex64)
       = Inr (''host.example.com:5000/repo@sha256:'' @ hex64)"
  by code_simp

theorem colon_before_digest_no_warning_witness:
  "Contains (''host.example.com:5000/repo@sha256:'' @ hex64) ''@sha256''
   \<and> hd (Split (''host.example.com:5000/repo@sha256:'' @ hex64) ''@sha256'') = ''host.example.com:5000/repo''
   \<and> Contains ''host.example.com:5000/repo'' '':''
   \<and> \<not> HasSuffix ''host.example.com:5000/repo'' '':latest''
   \<and> NewDigest refLib (''host.example.com:5000/repo@sha256:'' @ hex64)
       = Inr (''host.example.com:5000/repo@sha256:'' @ hex64)
   \<and> tagWithDigest (''host.example.com:5000/repo@sha256:'' @ hex64)
   \<and> (Warning, msgTagWithDigest ''build'' (''host.example.com:5000/repo@sha256:'' @ hex64))
        \<notin> set (findings (validateStep refLib (V1Step (plainStep (''host.example.com:5000/repo@sha256:'' @ hex64)))))"
proof -
  have nd: "NewDigest refLib (''host.example.com:5000/repo@sha256:'' @ hex64)
       = Inr (''host.example.com:5000/repo@sha256:'' @ hex64)"
    using port_image_facts by (simp add: refLib_def)
  have "tagWithDigest (''host.example.com:5000/repo@sha256:'' @ hex64)
   \<and> (Warning, msgTagWithDigest ''build'' (''host.example.com:5000/repo@sha256:'' @ hex64))
        \<notin> set (findings (validateStep refLib (V1Step (plainStep (''host.example.com:5000/repo@sha256:'' @ hex64)))))"
    using colon_before_digest_no_warning
        [of "''host.example.com:5000/repo@sha256:'' @ hex64"
            "plainStep (''host.example.com:5000/repo@sha256:'' @ hex64)" refLib]
      port_image_facts nd
    by (simp add: plainStep_def)
  then show ?thesis using port_image_facts nd by blast
qed

section \<open>Properties of the script linter\<close>

lemma validateScript_start:
  "validateScript rx w taskName script cfgs stepName tr =
     (case normalize taskName script of
        Inl p \<Rightarrow> Inl p
      | Inr (script', r0) \<Rightarrow>
          Inr (runDeferred (flowState
            (runConfigs rx w taskName stepName script' cfgs (startState r0 tr)))))"
  by (simp add: validateScript_def startState_def split: sum.splits prod.splits)

lemma runLinters_append:
  "runLinters w tn sn sc (xs @ ys) s =
     (case runLinters w tn sn sc xs s of
        Return s' \<Rightarrow> Return s'
      | Continue s' \<Rightarrow> runLinters w tn sn sc ys s')"
  by (induction xs arbitrary: s) (auto split: Flow.splits)

lemma runConfigs_append:
  "runConfigs rx w tn sn sc (xs @ ys) s =
     (case runConfigs rx w tn sn sc xs s of
        Return s' \<Rightarrow> Return s'
      | Continue s' \<Rightarrow> runConfigs rx w tn sn sc ys s')"
  by (induction xs arbitrary: s) (auto split: Flow.splits option.splits)

lemma runLinter_not_found:
  "LookPath w (trace s) (cmd l) = None \<Longrightarrow>
   runLinter w tn sn sc l s = Return (addError (logEvent s (LookPathCall (cmd l))) (msgNotFound (cmd l)))"
  by (simp add: runLinter_def)

lemma runDeferred_addError:
  "runDeferred (addError s msg) = (Err (result s) msg, trace s @ map RemoveCall (deferred s))"
  by (simp add: runDeferred_def addError_def)

lemma runDeferred_addError_log:
  "runDeferred (addError (logEvent s e) msg)
     = (Err (result s) msg, trace s @ [e] @ map RemoveCall (deferred s))"
  by (simp add: runDeferred_def addError_def logEvent_def)

text \<open>
  Claim C1, as amended. Let the script pass the head of \<^verbatim>\<open>validateScript\<close> and let the rules
  before rule \<open>c\<close> be evaluated without a return. If the pattern of \<open>c\<close> does not compile,
  the call returns the findings so far and one Error that names the pattern, and no later
  rule has any part in the outcome. If \<open>c\<close> matches and, after the linters before \<open>l\<close> have
  run without a return, the command of \<open>l\<close> is not found, the call returns the findings
  so far and one Error; neither the later linters of \<open>c\<close> nor the later rules have any
  part in the outcome. In both cases the files created so far are removed.
\<close>

theorem failure_ends_evaluation:
  assumes "normalize taskName script = Inr (script', r0)"
      and "runConfigs rx w taskName stepName script' pre (startState r0 tr) = Continue s"
  shows "(rx (rulePattern c) script' = None \<longrightarrow>
            validateScript rx w taskName script (pre @ c # post) stepName tr
              = Inr (Err (result s) (msgInvalidRegexp (regexp c)),
                     trace s @ map RemoveCall (deferred s)))
       \<and> (rx (rulePattern c) script' = Some True \<and> linters c = lpre @ l # lpost
           \<and> runLinters w taskName stepName script' lpre s = Continue s'
           \<and> LookPath w (trace s') (cmd l) = None \<longrightarrow>
            validateScript rx w taskName script (pre @ c # post) stepName tr
              = Inr (Err (result s') (msgNotFound (cmd l)),
                     trace s' @ [LookPathCall (cmd l)] @ map RemoveCall (deferred s')))"
proof (intro conjI impI)
  assume bad: "rx (rulePattern c) script' = None"
  have "runConfigs rx w taskName stepName script' (pre @ c # post) (startState r0 tr)
      = Return (addError s (msgInvalidRegexp (regexp c)))"
    using assms(2) bad by (simp add: runConfigs_append)
  then show "validateScript rx w taskName script (pre @ c # post) stepName tr
              = Inr (Err (result s) (msgInvalidRegexp (regexp c)),
                     trace s @ map RemoveCall (deferred s))"
    using assms(1) by (simp add: validateScript_start flowState_def runDeferred_addError)
next
  assume h: "rx (rulePattern c) script' = Some True \<and> linters c = lpre @ l # lpost
           \<and> runLinters w taskName stepName script' lpre s = Continue s'
           \<and> LookPath w (trace s') (cmd l) = None"
  then have "runLinters w taskName stepName script' (linters c) s
      = Return (addError (logEvent s' (LookPathCall (cmd l))) (msgNotFound (cmd l)))"
    by (simp add: runLinters_append runLinter_not_found)
  then have "runConfigs rx w taskName stepName script' (pre @ c # post) (startState r0 tr)
      = Return (addError (logEvent s' (LookPathCall (cmd l))) (msgNotFound (cmd l)))"
    using assms(2) h by (simp add: runConfigs_append)
  then show "validateScript rx w taskName script (pre @ c # post) stepName tr
              = Inr (Err (result s') (msgNotFound (cmd l)),
                     trace s' @ [LookPathCall (cmd l)] @ map RemoveCall (deferred s'))"
    using assms(1) by (simp add: validateScript_start flowState_def runDeferred_addError_log)
qed

lemma demoScript_normalize: "normalize ''task'' demoScript = Inr (demoScript, Result [])"
  by code_simp

lemma demo_sh_rule_runs:
  "runConfigs MatchString (demoWorld []) ''task'' ''step'' demoScript [shRule] (startState (Result []) [])
     = Continue (shRuleState demoScript)"
  by code_simp

lemma demo_patterns:
  "MatchString (rulePattern shRule) demoScript = Some True
   \<and> MatchString (rulePattern badRule) demoScript = None
   \<and> MatchString (rulePattern extraRule) demoScript = Some True"
  by code_simp

lemma demo_shellcheck_missing:
  "LookPath (demoWorld [''shellcheck'']) [] ''shellcheck'' = None
   \<and> LookPath (demoWorld [''shellcheck'']) [LookPathCall ''shellcheck''] ''sh'' = Some ''/usr/bin/sh''"
  by code_simp

lemma shRule_linters:
  "linters shRule = [] @ \<lparr> cmd = ''shellcheck'', args = [''-s'', ''sh''] \<rparr> # [\<lparr> cmd = ''sh'', args = [''-n''] \<rparr>]"
  by (simp add: shRule_def NewConfig_def)

theorem failure_ends_evaluation_witness:
  "normalize ''task'' demoScript = Inr (demoScript, Result [])
   \<and> runConfigs MatchString (demoWorld []) ''task'' ''step'' demoScript [shRule] (startState (Result []) [])
       = Continue (shRuleState demoScript)
   \<and> MatchString (rulePattern badRule) demoScript = None
   \<and> validateScript MatchString (demoWorld []) ''task'' demoScript ([shRule] @ badRule # [extraRule]) ''step'' []
       = Inr (Result [(Error, msgInvalidRegexp ''('')],
              shRuleTrace demoScript
                @ [RemoveCall ''/tmp/catlin-script-linterx'', RemoveCall ''/tmp/catlin-script-linter''])
   \<and> MatchString (rulePattern shRule) demoScript = Some True
   \<and> LookPath (demoWorld [''shellcheck'']) [] ''shellcheck'' = None
   \<and> validateScript MatchString (demoWorld [''shellcheck'']) ''task'' demoScript ([] @ shRule # [extraRule]) ''step'' []
       = Inr (Result [(Error, msgNotFound ''shellcheck'')], [LookPathCall ''shellcheck''])"
proof -
  have one: "validateScript MatchString (demoWorld []) ''task'' demoScript ([shRule] @ badRule # [extraRule]) ''step'' []
       = Inr (Result [(Error, msgInvalidRegexp ''('')],
              shRuleTrace demoScript
                @ [RemoveCall ''/tmp/catlin-script-linterx'', RemoveCall ''/tmp/catlin-script-linter''])"
    using failure_ends_evaluation [OF demoScript_normalize demo_sh_rule_runs,
        where c = badRule and post = "[extraRule]"]
      demo_patterns
    by (simp add: shRuleState_def badRule_def Err_def)
  have start: "runConfigs MatchString (demoWorld [''shellcheck'']) ''task'' ''step'' demoScript []
       (startState (Result []) []) = Continue (startState (Result []) [])"
    by simp
  have none: "runLinters (demoWorld [''shellcheck'']) ''task'' ''step'' demoScript [] (startState (Result []) [])
       = Continue (startState (Result []) [])"
    by simp
  have two: "validateScript MatchString (demoWorld [''shellcheck'']) ''task'' demoScript ([] @ shRule # [extraRule]) ''step'' []
       = Inr (Result [(Error, msgNotFound ''shellcheck'')], [LookPathCall ''shellcheck''])"
    using failure_ends_evaluation [OF demoScript_normalize start,
        where c = shRule and lpre = "[]"
          and l = "\<lparr> cmd = ''shellcheck'', args = [''-s'', ''sh''] \<rparr>"
          and lpost = "[\<lparr> cmd = ''sh'', args = [''-n''] \<rparr>]"
          and s' = "startState (Result []) []" and post = "[extraRule]"]
      demo_patterns demo_shellcheck_missing shRule_linters none
    by (simp add: startState_def Err_def)
  show ?thesis
    using demoScript_normalize demo_sh_rule_runs demo_patterns demo_shellcheck_missing one two
    by blast
qed

text \<open>
  The claim as the specification states it fails. With the default table, a script for
  the POSIX shell and a search path without \<^verbatim>\<open>shellcheck\<close>, the call returns after the one
  Error: the next linter of the rule, \<^verbatim>\<open>sh -n\<close>, is on the search path and is neither
  looked up nor run. With a rule whose pattern does not compile placed before the default
  table, the call returns the one Error and evaluates no rule of the table, although the
  rule for the POSIX shell matches the script.
\<close>

theorem failure_blocks_the_rest:
  "MatchString (rulePattern shRule) demoScript = Some True
   \<and> LookPath (demoWorld [''shellcheck'']) [LookPathCall ''shellcheck''] ''sh'' = Some ''/usr/bin/sh''
   \<and> validateScript MatchString (demoWorld [''shellcheck'']) ''task'' demoScript NewConfig ''step'' []
       = Inr (Result [(Error, msgNotFound ''shellcheck'')], [LookPathCall ''shellcheck''])
   \<and> validateScript MatchString (demoWorld []) ''task'' demoScript (badRule # NewConfig) ''step'' []
       = Inr (Result [(Error, msgInvalidRegexp ''('')], [])
   \<and> validateScript MatchString (demoWorld []) ''task'' demoScript NewConfig ''step'' []
       = Inr (Result [],
              shRuleTrace demoScript
                @ [RemoveCall ''/tmp/catlin-script-linterx'', RemoveCall ''/tmp/catlin-script-linter''])"
proof -
  have a: "validateScript MatchString (demoWorld [''shellcheck'']) ''task'' demoScript NewConfig ''step'' []
       = Inr (Result [(Error, msgNotFound ''shellcheck'')], [LookPathCall ''shellcheck''])"
    by code_simp
  have b: "validateScript MatchString (demoWorld []) ''task'' demoScript (badRule # NewConfig) ''step'' []
       = Inr (Result [(Error, msgInvalidRegexp ''('')], [])"
    by code_simp
  have c: "validateScript MatchString (demoWorld []) ''task'' demoScript NewConfig ''step'' []
       = Inr (Result [],
              shRuleTrace demoScript
                @ [RemoveCall ''/tmp/catlin-script-linterx'', RemoveCall ''/tmp/catlin-script-linter''])"
    by code_simp
  show ?thesis using a b c demo_patterns demo_shellcheck_missing by blast
qed

section \<open>Where the linter panics\<close>

text \<open>
  Claim C3 asks that no \<^verbatim>\<open>Validate\<close> ever panics. \<^verbatim>\<open>taskLinter.Validate\<close> does, on resources
  that decode without error: for the kind \<^verbatim>\<open>Task\<close> decoded to a \<^verbatim>\<open>*v1beta1.Task\<close> the assertion
  \<^verbatim>\<open>res.(*v1.Task)\<close> panics, whatever the steps are; and for a \<^verbatim>\<open>*v1.Task\<close> with a step
  whose script is \<^verbatim>\<open>#!/bin/sh\<close>, a newline, \<^verbatim>\<open>ls\<close> and a newline (13 bytes),
  \<^verbatim>\<open>script[0:14]\<close> panics.
\<close>

theorem taskLinter_Validate_panics:
  "taskLinter_Validate rx w
     (NewScriptLinter
        \<lparr> Kind = ''Task'',
          ToType = Inr (V1beta1TaskPtr (Some \<lparr> ObjectMetaName = ''t'', SpecSteps = [] \<rparr>)) \<rparr>)
     = Inl InterfaceConversion
   \<and> taskLinter_Validate rx w
     (NewScriptLinter
        \<lparr> Kind = ''Task'',
          ToType = Inr (V1TaskPtr (Some
            \<lparr> ObjectMetaName = ''t'',
              SpecSteps = [\<lparr> Name = ''s'', Image = ''docker.io/library/ubuntu:1.0'',
                             Script = ''#!/bin/sh\<newline>ls\<newline>'', Env = [], EnvFrom = [] \<rparr>] \<rparr>)) \<rparr>)
     = Inl (SliceBounds 14 13)"
  by code_simp

text \<open>
  What does hold: a resource that does not decode gives one Error and no panic in both
  validators, and \<^verbatim>\<open>taskValidator.Validate\<close> returns a Result for every resource that decodes
  to a pointer that is not nil, or to another type.
\<close>

lemma decode_failure_is_one_error:
  "ToType r = Inl err \<Longrightarrow>
   taskValidator_Validate lib r = Inr (Result [(Error, msgDecode err)])
   \<and> taskLinter_Validate rx w \<lparr> res = r, configs = cfgs \<rparr> = Inr (Result [(Error, msgDecode err)], [])"
  by (simp add: taskValidator_Validate_def taskLinter_Validate_def Err_def)

lemma taskValidator_Validate_returns:
  "ToType r = Inr d \<Longrightarrow> d \<noteq> V1TaskPtr None \<Longrightarrow> d \<noteq> V1beta1TaskPtr None \<Longrightarrow>
   \<exists>result. taskValidator_Validate lib r = Inr result"
  by (auto simp: taskValidator_Validate_def split: Decoded.splits option.splits)

text \<open>
  Claim C4 asks that a script without a shebang that is not empty is never aborted by the
  detection of the shebang. A script of one byte is: \<^verbatim>\<open>script[0:2]\<close> panics.
\<close>

theorem one_byte_script_panics:
  "validateScript rx w taskName ''a'' cfgs stepName tr = Inl (SliceBounds 2 1)"
  by (simp add: validateScript_def normalize_def)

text \<open>
  From two bytes on the claim holds: the script is matched with the line
  \<^verbatim>\<open>#!/usr/bin/env sh\<close> before it, and the first rule of the default table matches it, the
  two other rules do not.
\<close>

lemma normalize_no_shebang:
  "2 \<le> length script \<Longrightarrow> take 2 script \<noteq> ''#!'' \<Longrightarrow>
   normalize taskName script = Inr (shebangLine @ script, Result [])"
  by (simp add: normalize_def)

lemma nullable_matchPrefix: "nullable b True r \<Longrightarrow> nullable b False r \<Longrightarrow> matchPrefix b r s"
  by (cases s) auto

lemma default_rule_matches_synthesized:
  "MatchString (rulePattern (hd NewConfig)) (shebangLine @ script) = Some True"
  by (simp add: MatchString_def rulePattern_def NewConfig_def backslash_def shebangLine_def
      compileRx_def closeGroup_def seqOf_def repeatAtom_def escapeAtom_def nullable_matchPrefix)

text \<open>
  The default table on the usual first lines: each of them is matched by the rule of its
  interpreter and by no other rule.
\<close>

lemma default_table_examples:
  "map (\<lambda>c. MatchString (rulePattern c) ''#!/bin/sh\<newline>echo hi\<newline>'') NewConfig
     = [Some True, Some False, Some False]
   \<and> map (\<lambda>c. MatchString (rulePattern c) ''#!/usr/bin/env bash\<newline>echo hi\<newline>'') NewConfig
     = [Some False, Some True, Some False]
   \<and> map (\<lambda>c. MatchString (rulePattern c) ''#!/usr/bin/env python\<newline>print(1)\<newline>'') NewConfig
     = [Some False, Some False, Some True]
   \<and> map (\<lambda>c. MatchString (rulePattern c) ''#!/usr/libexec/platform-python23\<newline>print(1)\<newline>'') NewConfig
     = [Some False, Some False, Some True]
   \<and> map (\<lambda>c. MatchString (rulePattern c) ''#!/usr/bin/perl\<newline>print 1;\<newline>'') NewConfig
     = [Some False, Some False, Some False]"
  by code_simp

section \<open>The linters that run\<close>

lemma runLinter_ok:
  assumes "LookPath w (trace s) (cmd l) = Some p"
      and "\<forall>tr. CreateTemp w tr \<noteq> None" and "\<forall>tr n c. WriteFile w tr n c" and "\<forall>tr n. CloseFile w tr n"
  shows "\<exists>s'. runLinter w tn sn sc l s = Continue s'
            \<and> invocations (trace s') = invocations (trace s) @ [(p, args l)]"
proof -
  have "CreateTemp w (trace s @ [LookPathCall (cmd l)]) \<noteq> None"
    using assms(2) by blast
  then obtain tmp where "CreateTemp w (trace s @ [LookPathCall (cmd l)]) = Some tmp"
    by auto
  then show ?thesis
    using assms
    by (auto simp: runLinter_def logEvent_def addError_def Let_def invocations_def)
qed

lemma runLinters_ok:
  assumes "\<forall>l \<in> set ls. \<forall>tr. LookPath w tr (cmd l) = Some (resolve (cmd l))"
      and "\<forall>tr. CreateTemp w tr \<noteq> None" and "\<forall>tr n c. WriteFile w tr n c" and "\<forall>tr n. CloseFile w tr n"
  shows "\<exists>s'. runLinters w tn sn sc ls s = Continue s'
            \<and> invocations (trace s') = invocations (trace s) @ map (\<lambda>l. (resolve (cmd l), args l)) ls"
  using assms(1)
proof (induction ls arbitrary: s)
  case Nil
  then show ?case by simp
next
  case (Cons l ls)
  have "LookPath w (trace s) (cmd l) = Some (resolve (cmd l))"
    using Cons.prems by simp
  then obtain s1 where s1: "runLinter w tn sn sc l s = Continue s1"
      "invocations (trace s1) = invocations (trace s) @ [(resolve (cmd l), args l)]"
    using runLinter_ok [OF _ assms(2) assms(3) assms(4)] by blast
  obtain s2 where s2: "runLinters w tn sn sc ls s1 = Continue s2"
      "invocations (trace s2) = invocations (trace s1) @ map (\<lambda>l. (resolve (cmd l), args l)) ls"
    using Cons.IH [of s1] Cons.prems by auto
  show ?case using s1 s2 by simp
qed

lemma runConfigs_ok:
  assumes "\<forall>c \<in> set cfgs. rx (rulePattern c) sc \<noteq> None"
      and "\<forall>c \<in> set (matching rx sc cfgs). \<forall>l \<in> set (linters c). \<forall>tr. LookPath w tr (cmd l) = Some (resolve (cmd l))"
      and "\<forall>tr. CreateTemp w tr \<noteq> None" and "\<forall>tr n c. WriteFile w tr n c" and "\<forall>tr n. CloseFile w tr n"
  shows "\<exists>s'. runConfigs rx w tn sn sc cfgs s = Continue s'
            \<and> invocations (trace s') = invocations (trace s) @ expectedInvocations resolve (matching rx sc cfgs)"
  using assms(1) assms(2)
proof (induction cfgs arbitrary: s)
  case Nil
  then show ?case by (simp add: matching_def expectedInvocations_def)
next
  case (Cons c cfgs)
  have ih: "\<exists>s'. runConfigs rx w tn sn sc cfgs t = Continue s'
            \<and> invocations (trace s') = invocations (trace t) @ expectedInvocations resolve (matching rx sc cfgs)" for t
  proof -
    have sub: "set (matching rx sc cfgs) \<subseteq> set (matching rx sc (c # cfgs))"
      by (auto simp: matching_def)
    have p2: "\<forall>c \<in> set (matching rx sc cfgs). \<forall>l \<in> set (linters c). \<forall>tr. LookPath w tr (cmd l) = Some (resolve (cmd l))"
      using Cons.prems(2) sub by blast
    have p1: "\<forall>c \<in> set cfgs. rx (rulePattern c) sc \<noteq> None"
      using Cons.prems(1) by simp
    show ?thesis using Cons.IH [OF p1 p2] .
  qed
  obtain m where m: "rx (rulePattern c) sc = Some m"
    using Cons.prems(1) by auto
  show ?case
  proof (cases m)
    case False
    then show ?thesis using m ih [of s] by (simp add: matching_def)
  next
    case True
    then have "\<forall>l \<in> set (linters c). \<forall>tr. LookPath w tr (cmd l) = Some (resolve (cmd l))"
      using Cons.prems(2) m by (simp add: matching_def)
    then obtain s1 where s1: "runLinters w tn sn sc (linters c) s = Continue s1"
      "invocations (trace s1) = invocations (trace s) @ map (\<lambda>l. (resolve (cmd l), args l)) (linters c)"
      using runLinters_ok [OF _ assms(3) assms(4) assms(5)] by blast
    obtain s2 where s2: "runConfigs rx w tn sn sc cfgs s1 = Continue s2"
      "invocations (trace s2) = invocations (trace s1) @ expectedInvocations resolve (matching rx sc cfgs)"
      using ih [of s1] by blast
    show ?thesis using True m s1 s2 by (simp add: matching_def expectedInvocations_def)
  qed
qed

lemma invocations_removes: "invocations (tr @ map RemoveCall ns) = invocations tr"
  by (induction ns) (auto simp: invocations_def)

text \<open>
  Claim C7, as amended. Let the script pass the head of \<^verbatim>\<open>validateScript\<close>, let every
  pattern of the table compile, let every linter command of every matching rule be found
  on the search path, and let every temporary file be created, written and closed without
  error. Then the call returns, and the linters it has run are those of all the matching
  rules, rule after rule in the order of the table and, within a rule, in the order of its
  list, each with its configured arguments: the first match does not end the evaluation.
\<close>

theorem matching_rules_all_run:
  assumes "normalize taskName script = Inr (script', r0)"
      and "\<forall>c \<in> set cfgs. rx (rulePattern c) script' \<noteq> None"
      and "\<forall>c \<in> set (matching rx script' cfgs). \<forall>l \<in> set (linters c).
             \<forall>tr. LookPath w tr (cmd l) = Some (resolve (cmd l))"
      and "\<forall>tr. CreateTemp w tr \<noteq> None"
      and "\<forall>tr n c. WriteFile w tr n c"
      and "\<forall>tr n. CloseFile w tr n"
  shows "\<exists>res tr'. validateScript rx w taskName script cfgs stepName tr = Inr (res, tr')
           \<and> invocations tr'
               = invocations tr @ expectedInvocations resolve (matching rx script' cfgs)"
proof -
  obtain s' where s': "runConfigs rx w taskName stepName script' cfgs (startState r0 tr) = Continue s'"
      "invocations (trace s')
         = invocations (trace (startState r0 tr)) @ expectedInvocations resolve (matching rx script' cfgs)"
    using runConfigs_ok [OF assms(2) assms(3) assms(4) assms(5) assms(6)] by blast
  have "validateScript rx w taskName script cfgs stepName tr
      = Inr (result s', trace s' @ map RemoveCall (deferred s'))"
    using assms(1) s'(1) by (simp add: validateScript_start flowState_def runDeferred_def)
  moreover have "invocations (trace s' @ map RemoveCall (deferred s'))
      = invocations tr @ expectedInvocations resolve (matching rx script' cfgs)"
    using s'(2) by (simp add: invocations_removes startState_def)
  ultimately show ?thesis by blast
qed

lemma demo_table_compiles:
  "\<forall>c \<in> set (NewConfig @ [extraRule]). MatchString (rulePattern c) demoScript \<noteq> None"
  by code_simp

lemma demo_table_matching:
  "matching MatchString demoScript (NewConfig @ [extraRule]) = [shRule, extraRule]"
  by code_simp

lemma demo_expected:
  "expectedInvocations binPath [shRule, extraRule]
     = [(''/usr/bin/shellcheck'', [''-s'', ''sh'']), (''/usr/bin/sh'', [''-n'']),
        (''/usr/bin/checkbashisms'', [''-f''])]"
  by code_simp

theorem matching_rules_all_run_witness:
  "normalize ''task'' demoScript = Inr (demoScript, Result [])
   \<and> matching MatchString demoScript (NewConfig @ [extraRule]) = [shRule, extraRule]
   \<and> (\<exists>res tr'. validateScript MatchString (demoWorld []) ''task'' demoScript (NewConfig @ [extraRule]) ''step'' []
                    = Inr (res, tr')
         \<and> invocations tr'
             = [(''/usr/bin/shellcheck'', [''-s'', ''sh'']), (''/usr/bin/sh'', [''-n'']),
                (''/usr/bin/checkbashisms'', [''-f''])])"
proof -
  have look: "\<forall>c \<in> set (matching MatchString demoScript (NewConfig @ [extraRule])).
      \<forall>l \<in> set (linters c). \<forall>tr. LookPath (demoWorld []) tr (cmd l) = Some (binPath (cmd l))"
    by (simp add: demoWorld_def)
  have cr: "\<forall>tr. CreateTemp (demoWorld []) tr \<noteq> None"
    by (simp add: demoWorld_def)
  have wr: "\<forall>tr n c. WriteFile (demoWorld []) tr n c"
    by (simp add: demoWorld_def)
  have cl: "\<forall>tr n. CloseFile (demoWorld []) tr n"
    by (simp add: demoWorld_def)
  have "\<exists>res tr'. validateScript MatchString (demoWorld []) ''task'' demoScript (NewConfig @ [extraRule]) ''step'' []
                    = Inr (res, tr')
         \<and> invocations tr'
             = invocations [] @ expectedInvocations binPath (matching MatchString demoScript (NewConfig @ [extraRule]))"
    by (rule matching_rules_all_run [OF demoScript_normalize demo_table_compiles look cr wr cl])
  then show ?thesis
    using demoScript_normalize demo_table_matching demo_expected
    by (simp add: invocations_def)
qed

text \<open>
  The claim as the specification states it fails. In the table below the first and the
  third rule match the script and every linter command is on the search path, but the
  second rule has a pattern that does not compile: the call returns there with one Error,
  after the two linters of the first rule, and the linter of the third rule does not run.
\<close>

theorem malformed_rule_between_matches:
  "MatchString (rulePattern shRule) demoScript = Some True
   \<and> MatchString (rulePattern extraRule) demoScript = Some True
   \<and> LookPath (demoWorld []) [] ''checkbashisms'' = Some ''/usr/bin/checkbashisms''
   \<and> validateScript MatchString (demoWorld []) ''task'' demoScript [shRule, badRule, extraRule] ''step'' []
       = Inr (Result [(Error, msgInvalidRegexp ''('')],
              shRuleTrace demoScript
                @ [RemoveCall ''/tmp/catlin-script-linterx'', RemoveCall ''/tmp/catlin-script-linter''])
   \<and> invocations (shRuleTrace demoScript
                @ [RemoveCall ''/tmp/catlin-script-linterx'', RemoveCall ''/tmp/catlin-script-linter''])
       = [(''/usr/bin/shellcheck'', [''-s'', ''sh'']), (''/usr/bin/sh'', [''-n''])]"
proof -
  have a: "LookPath (demoWorld []) [] ''checkbashisms'' = Some ''/usr/bin/checkbashisms''"
    by code_simp
  have b: "validateScript MatchString (demoWorld []) ''task'' demoScript [shRule, badRule, extraRule] ''step'' []
       = Inr (Result [(Error, msgInvalidRegexp ''('')],
              shRuleTrace demoScript
                @ [RemoveCall ''/tmp/catlin-script-linterx'', RemoveCall ''/tmp/catlin-script-linter''])"
    by code_simp
  have c: "invocations (shRuleTrace demoScript
                @ [RemoveCall ''/tmp/catlin-script-linterx'', RemoveCall ''/tmp/catlin-script-linter''])
       = [(''/usr/bin/shellcheck'', [''-s'', ''sh'']), (''/usr/bin/sh'', [''-n''])]"
    by code_simp
  show ?thesis using a b c demo_patterns by blast
qed

section \<open>The text handed to the linters\<close>

lemma handedText_mono: "handedText t a e \<Longrightarrow> handedText t (b @ a @ c) e"
  by (cases e) auto

lemma runLinter_trace:
  "\<exists>new. trace (flowState (runLinter w tn sn sc l s)) = trace s @ new
         \<and> (\<forall>e \<in> set new. handedText sc new e)"
  by (auto simp: runLinter_def flowState_def logEvent_def addError_def Let_def
      split: option.splits)

lemma runLinters_trace:
  "\<exists>new. trace (flowState (runLinters w tn sn sc ls s)) = trace s @ new
         \<and> (\<forall>e \<in> set new. handedText sc new e)"
proof (induction ls arbitrary: s)
  case Nil
  then show ?case by (simp add: flowState_def)
next
  case (Cons l ls)
  obtain new1 where n1: "trace (flowState (runLinter w tn sn sc l s)) = trace s @ new1"
      "\<forall>e \<in> set new1. handedText sc new1 e"
    using runLinter_trace by blast
  show ?case
  proof (cases "runLinter w tn sn sc l s")
    case (Return s')
    then show ?thesis using n1 by (auto simp: flowState_def)
  next
    case (Continue s')
    obtain new2 where n2: "trace (flowState (runLinters w tn sn sc ls s')) = trace s' @ new2"
      "\<forall>e \<in> set new2. handedText sc new2 e"
      using Cons.IH by blast
    have t: "trace s' = trace s @ new1" using n1 Continue by (simp add: flowState_def)
    have "\<forall>e \<in> set (new1 @ new2). handedText sc (new1 @ new2) e"
      using n1(2) n2(2) handedText_mono [of sc new1 _ "[]" new2] handedText_mono [of sc new2 _ new1 "[]"]
      by auto
    then show ?thesis using Continue n2 t by auto
  qed
qed

lemma runConfigs_trace:
  "\<exists>new. trace (flowState (runConfigs rx w tn sn sc cfgs s)) = trace s @ new
         \<and> (\<forall>e \<in> set new. handedText sc new e)"
proof (induction cfgs arbitrary: s)
  case Nil
  then show ?case by (simp add: flowState_def)
next
  case (Cons c cfgs)
  show ?case
  proof (cases "rx (rulePattern c) sc")
    case None
    then show ?thesis by (simp add: flowState_def addError_def)
  next
    case (Some m)
    show ?thesis
    proof (cases m)
      case False
      then show ?thesis using Some Cons.IH [of s] by simp
    next
      case True
      obtain new1 where n1: "trace (flowState (runLinters w tn sn sc (linters c) s)) = trace s @ new1"
          "\<forall>e \<in> set new1. handedText sc new1 e"
        using runLinters_trace by blast
      show ?thesis
      proof (cases "runLinters w tn sn sc (linters c) s")
        case (Return s')
        then show ?thesis using n1 Some True by (auto simp: flowState_def)
      next
        case (Continue s')
        obtain new2 where n2: "trace (flowState (runConfigs rx w tn sn sc cfgs s')) = trace s' @ new2"
          "\<forall>e \<in> set new2. handedText sc new2 e"
          using Cons.IH by blast
        have t: "trace s' = trace s @ new1" using n1 Continue by (simp add: flowState_def)
        have "\<forall>e \<in> set (new1 @ new2). handedText sc (new1 @ new2) e"
          using n1(2) n2(2) handedText_mono [of sc new1 _ "[]" new2] handedText_mono [of sc new2 _ new1 "[]"]
          by auto
        then show ?thesis using Continue Some True n2 t by auto
      qed
    qed
  qed
qed

lemma handedText_remove: "\<forall>e \<in> set (map RemoveCall ns). handedText text evs e"
  by auto

lemma no_shebang_trace:
  assumes "2 \<le> length script" and "take 2 script \<noteq> ''#!''"
  shows "\<exists>res new. validateScript rx w taskName script cfgs stepName tr = Inr (res, tr @ new)
           \<and> (\<forall>e \<in> set new. handedText (shebangLine @ script) new e)"
proof -
  let ?fin = "flowState (runConfigs rx w taskName stepName (shebangLine @ script) cfgs
                (startState (Result []) tr))"
  obtain new1 where n1: "trace ?fin = trace (startState (Result []) tr) @ new1"
      "\<forall>e \<in> set new1. handedText (shebangLine @ script) new1 e"
    using runConfigs_trace by blast
  let ?new = "new1 @ map RemoveCall (deferred ?fin)"
  have run: "validateScript rx w taskName script cfgs stepName tr = Inr (result ?fin, tr @ ?new)"
    using assms n1(1)
    by (simp add: validateScript_start normalize_no_shebang runDeferred_def startState_def)
  have "\<forall>e \<in> set ?new. handedText (shebangLine @ script) ?new e"
    using n1(2) handedText_mono [of "shebangLine @ script" new1 _ "[]" "map RemoveCall (deferred ?fin)"]
    by auto
  with run show ?thesis by blast
qed

text \<open>
  Claim C9. Let the script not begin with \<^verbatim>\<open>#!\<close>. If it has at least two bytes the call
  returns, and in what it adds to the trace every write to a temporary file writes the
  line \<^verbatim>\<open>#!/usr/bin/env sh\<close> followed by the script as the caller gave it, and every linter
  that runs is handed that same text, in the file named by its last argument, which one of
  these writes has filled. If it has fewer than two bytes the call panics before anything
  is written.
\<close>

theorem synthesized_shebang_is_written:
  assumes "take 2 script \<noteq> ''#!''"
  shows "(2 \<le> length script \<longrightarrow>
            (\<exists>res new. validateScript rx w taskName script cfgs stepName tr = Inr (res, tr @ new)
               \<and> (\<forall>e \<in> set new. handedText (shebangLine @ script) new e)))
       \<and> (length script < 2 \<longrightarrow>
            validateScript rx w taskName script cfgs stepName tr = Inl (SliceBounds 2 (length script)))"
proof (intro conjI impI)
  assume "2 \<le> length script"
  then show "\<exists>res new. validateScript rx w taskName script cfgs stepName tr = Inr (res, tr @ new)
               \<and> (\<forall>e \<in> set new. handedText (shebangLine @ script) new e)"
    using assms by (rule no_shebang_trace)
next
  assume "length script < 2"
  then show "validateScript rx w taskName script cfgs stepName tr = Inl (SliceBounds 2 (length script))"
    by (simp add: validateScript_def normalize_def)
qed

lemma echo_run:
  "validateScript MatchString (demoWorld []) ''task'' ''echo hi'' NewConfig ''step'' []
     = Inr (Result [],
            shRuleTrace (''#!/usr/bin/env sh\<newline>echo hi'')
              @ [RemoveCall ''/tmp/catlin-script-linterx'', RemoveCall ''/tmp/catlin-script-linter''])"
  by code_simp

lemma echo_write:
  "WriteCall ''/tmp/catlin-script-linter'' (''#!/usr/bin/env sh\<newline>echo hi'')
     \<in> set (shRuleTrace (''#!/usr/bin/env sh\<newline>echo hi'')
              @ [RemoveCall ''/tmp/catlin-script-linterx'', RemoveCall ''/tmp/catlin-script-linter''])"
  by (simp add: shRuleTrace_def)

theorem synthesized_shebang_is_written_witness:
  "2 \<le> length ''echo hi'' \<and> take 2 ''echo hi'' \<noteq> ''#!''
   \<and> (\<exists>res new. validateScript MatchString (demoWorld []) ''task'' ''echo hi'' NewConfig ''step'' [] = Inr (res, new)
         \<and> list_all (handedText (''#!/usr/bin/env sh\<newline>echo hi'') new) new
         \<and> WriteCall ''/tmp/catlin-script-linter'' (''#!/usr/bin/env sh\<newline>echo hi'') \<in> set new)"
proof -
  have a: "2 \<le> length ''echo hi''" by simp
  have b: "take 2 ''echo hi'' \<noteq> ''#!''" by simp
  obtain res new where rn:
      "validateScript MatchString (demoWorld []) ''task'' ''echo hi'' NewConfig ''step'' [] = Inr (res, [] @ new)"
      "\<forall>e \<in> set new. handedText (shebangLine @ ''echo hi'') new e"
    using a synthesized_shebang_is_written [OF b, of MatchString "demoWorld []" "''task''" NewConfig "''step''" "[]"]
    by blast
  have new: "new = shRuleTrace (''#!/usr/bin/env sh\<newline>echo hi'')
              @ [RemoveCall ''/tmp/catlin-script-linterx'', RemoveCall ''/tmp/catlin-script-linter'']"
    using rn(1) echo_run by simp
  have "list_all (handedText (''#!/usr/bin/env sh\<newline>echo hi'') new) new"
    using rn(2) by (simp add: list_all_iff shebangLine_def)
  moreover have "WriteCall ''/tmp/catlin-script-linter'' (''#!/usr/bin/env sh\<newline>echo hi'') \<in> set new"
    unfolding new by (rule echo_write)
  ultimately show ?thesis using a b rn(1) by auto
qed

end
